theory Spec2Isabelle
  imports Complex_Main "HOL-Library.Sublist" "HOL-Library.AList"
begin

section \<open>JavaScript strings\<close>

text \<open>
  A JavaScript string is a sequence of UTF-16 code units. The development covers the
  strings whose code units are below 256 (ISO 8859-1): one \<^typ>\<open>char\<close> is one code
  unit, and \<^typ>\<open>string\<close> is the JavaScript string. On this range
  \<^verbatim>\<open>String.prototype.toLowerCase\<close> maps \<^verbatim>\<open>A-Z\<close> and the capital letters
  \<^verbatim>\<open>U+00C0-U+00DE\<close> (without the multiplication sign \<^verbatim>\<open>U+00D7\<close>) to the code unit
  32 higher and leaves every other code unit alone.
\<close>

definition isUpperCaseChar :: "char \<Rightarrow> bool" where
  "isUpperCaseChar c =
     (let n = (of_char c :: nat)
      in (65 \<le> n \<and> n \<le> 90) \<or> (192 \<le> n \<and> n \<le> 222 \<and> n \<noteq> 215))"

definition toLowerCaseChar :: "char \<Rightarrow> char" where
  "toLowerCaseChar c = (if isUpperCaseChar c then char_of ((of_char c :: nat) + 32) else c)"

definition toLowerCase :: "string \<Rightarrow> string" where
  "toLowerCase s = map toLowerCaseChar s"



text \<open>\<^verbatim>\<open>s.startsWith(p)\<close> and \<^verbatim>\<open>s.endsWith(p)\<close>.\<close>

definition startsWith :: "string \<Rightarrow> string \<Rightarrow> bool" where
  "startsWith s p = (take (length p) s = p)"

definition endsWith :: "string \<Rightarrow> string \<Rightarrow> bool" where
  "endsWith s p = (length p \<le> length s \<and> drop (length s - length p) s = p)"

text \<open>
  \<^verbatim>\<open>s.indexOf(v, pos)\<close>: the least index \<open>i \<ge> pos\<close> at which \<open>v\<close> occurs in \<open>s\<close>,
  or \<open>-1\<close>. The start position is clamped to the length of \<open>s\<close>, so the empty string is
  found at \<open>min pos (length s)\<close>.
\<close>

definition occursAt :: "string \<Rightarrow> string \<Rightarrow> nat \<Rightarrow> bool" where
  "occursAt s v i = (take (length v) (drop i s) = v)"

definition indexOfFrom :: "string \<Rightarrow> string \<Rightarrow> nat \<Rightarrow> int" where
  "indexOfFrom s v pos =
     (case find (occursAt s v) [min pos (length s) ..< Suc (length s)] of
        None \<Rightarrow> -1
      | Some i \<Rightarrow> int i)"

definition indexOf :: "string \<Rightarrow> string \<Rightarrow> int" where
  "indexOf s v = indexOfFrom s v 0"

text \<open>\<^verbatim>\<open>s.substring(a, b)\<close> for \<open>0 \<le> a\<close>, and \<^verbatim>\<open>s.substring(a)\<close>.\<close>

definition substring :: "string \<Rightarrow> nat \<Rightarrow> nat \<Rightarrow> string" where
  "substring s a b = (if a \<le> b then take (b - a) (drop a s) else take (a - b) (drop b s))"

definition substringFrom :: "string \<Rightarrow> nat \<Rightarrow> string" where
  "substringFrom s a = drop a s"

section \<open>EtymologicalAnalyzer (etymological-analyzer.js)\<close>

datatype morphemeType = Prefix | Suffix | Root | OtherType

record morpheme =
  mtype :: morphemeType
  mvalue :: string
  meaning :: string

definition prefixes :: "string list" where
  "prefixes = [''un-'', ''re-'', ''pre-'', ''dis-'', ''mis-'', ''over-'', ''under-'', ''out-'',
               ''up-'', ''anti-'', ''de-'', ''non-'']"

definition suffixes :: "string list" where
  "suffixes = [''-ing'', ''-ed'', ''-er'', ''-est'', ''-ly'', ''-tion'', ''-sion'', ''-ness'',
               ''-ment'', ''-ful'', ''-less'', ''-able'', ''-ible'']"

definition getPrefixMeaning :: "string \<Rightarrow> string" where
  "getPrefixMeaning p =
     (case map_of [(''un-'', ''not, opposite of''), (''re-'', ''again, back''),
                   (''pre-'', ''before''), (''dis-'', ''not, opposite''),
                   (''mis-'', ''wrongly, badly''), (''over-'', ''too much, above''),
                   (''under-'', ''too little, below''), (''out-'', ''beyond, more than''),
                   (''up-'', ''upward, increase''), (''anti-'', ''against''),
                   (''de-'', ''remove, reverse''), (''non-'', ''not'')] p of
        Some m \<Rightarrow> m
      | None \<Rightarrow> ''modifier'')"

definition getSuffixMeaning :: "string \<Rightarrow> string" where
  "getSuffixMeaning s =
     (case map_of [(''-ing'', ''action, process''), (''-ed'', ''past action, completed''),
                   (''-er'', ''one who does''), (''-est'', ''most, superlative''),
                   (''-ly'', ''in the manner of''), (''-tion'', ''action, state''),
                   (''-sion'', ''action, state''), (''-ness'', ''quality, state''),
                   (''-ment'', ''action, result''), (''-ful'', ''full of''),
                   (''-less'', ''without''), (''-able'', ''capable of''),
                   (''-ible'', ''capable of'')] s of
        Some m \<Rightarrow> m
      | None \<Rightarrow> ''modifier'')"

text \<open>
  The two \<^verbatim>\<open>for ... of\<close> loops of \<^verbatim>\<open>decomposeMorphemes\<close> stop at the first list entry
  that matches (\<^verbatim>\<open>break\<close>). Each returns the morphemes pushed so far and what remains.
\<close>

fun stripPrefix :: "string list \<Rightarrow> morpheme list \<Rightarrow> string \<Rightarrow> morpheme list \<times> string" where
  "stripPrefix [] morphemes remaining = (morphemes, remaining)"
| "stripPrefix (p # ps) morphemes remaining =
     (if startsWith remaining p
      then (morphemes @ [\<lparr>mtype = Prefix, mvalue = p, meaning = getPrefixMeaning p\<rparr>],
            substringFrom remaining (length p))
      else stripPrefix ps morphemes remaining)"

fun stripSuffix :: "string list \<Rightarrow> morpheme list \<Rightarrow> string \<Rightarrow> morpheme list \<times> string" where
  "stripSuffix [] morphemes remaining = (morphemes, remaining)"
| "stripSuffix (s # ss) morphemes remaining =
     (if endsWith remaining s
      then (morphemes @ [\<lparr>mtype = Suffix, mvalue = s, meaning = getSuffixMeaning s\<rparr>],
            substring remaining 0 (length remaining - length s))
      else stripSuffix ss morphemes remaining)"

definition decomposeMorphemes :: "string \<Rightarrow> morpheme list" where
  "decomposeMorphemes word =
     (let (morphemes1, remaining1) = stripPrefix prefixes [] (toLowerCase word);
          (morphemes2, remaining2) = stripSuffix suffixes morphemes1 remaining1
      in if remaining2 \<noteq> []
         then morphemes2 @ [\<lparr>mtype = Root, mvalue = remaining2, meaning = ''core meaning''\<rparr>]
         else morphemes2)"

text \<open>
  \<^verbatim>\<open>analyzePhoneticStructure\<close> classifies each character: a member of
  \<^verbatim>\<open>'aeiouAEIOU'\<close> is a vowel, any other ASCII letter a consonant, the rest is other.
\<close>

definition isVowelChar :: "char \<Rightarrow> bool" where
  "isVowelChar c = (c \<in> set ''aeiouAEIOU'')"

definition isConsonantChar :: "char \<Rightarrow> bool" where
  "isConsonantChar c = (c \<in> set ''bcdfghjklmnpqrstvwxyzBCDFGHJKLMNPQRSTVWXYZ'')"

definition classifyChar :: "char \<Rightarrow> char" where
  "classifyChar c = (if isVowelChar c then CHR ''V'' else if isConsonantChar c then CHR ''C''
                     else CHR ''X'')"

text \<open>
  \<^verbatim>\<open>estimateSyllables\<close> counts the matches of the global regular expression
  \<^verbatim>\<open>/[aeiouy]+/g\<close> in the lower-cased word. The matcher scans from the left; at a
  character of the class the greedy \<^verbatim>\<open>+\<close> takes the whole run, and the scan goes on
  behind it. \<^verbatim>\<open>match\<close> returns \<^verbatim>\<open>null\<close> when nothing matches, and the count is 1.
\<close>

definition inSyllableClass :: "char \<Rightarrow> bool" where
  "inSyllableClass c = (c \<in> set ''aeiouy'')"

function matchVowelGroups :: "string \<Rightarrow> string list" where
  "matchVowelGroups [] = []"
| "matchVowelGroups (c # cs) =
     (if inSyllableClass c
      then (c # takeWhile inSyllableClass cs) # matchVowelGroups (dropWhile inSyllableClass cs)
      else matchVowelGroups cs)"
  by pat_completeness auto
termination
  by (relation "measure length") (auto simp: length_dropWhile_le less_Suc_eq_le)

definition estimateSyllables :: "string \<Rightarrow> nat" where
  "estimateSyllables word =
     (let vowelGroups = matchVowelGroups (toLowerCase word)
      in if vowelGroups = [] then 1 else length vowelGroups)"

datatype stress = Primary | Secondary | Unstressed

text \<open>
  Writing index 0 of an empty array extends it in JavaScript, so the case of no
  syllable is spelled out (\<^verbatim>\<open>estimateSyllables\<close> never returns 0).
\<close>

definition estimateStressPattern :: "string \<Rightarrow> stress list" where
  "estimateStressPattern word =
     (let syllables = estimateSyllables word
      in if syllables = 1 then [Primary]
         else if syllables = 2 then [Primary, Secondary]
         else if syllables = 0 then [Primary]
         else ((replicate syllables Unstressed)[0 := Primary])[syllables - 2 := Secondary])"

record phoneticStructure =
  pattern :: string
  syllableCount :: nat
  stressPattern :: "stress list"

definition analyzePhoneticStructure :: "string \<Rightarrow> phoneticStructure" where
  "analyzePhoneticStructure word =
     \<lparr>pattern = map classifyChar word,
      syllableCount = estimateSyllables word,
      stressPattern = estimateStressPattern word\<rparr>"

text \<open>Semantic weights are JavaScript numbers; the model computes with exact rationals.\<close>

definition calculateSemanticWeight :: "morpheme \<Rightarrow> rat" where
  "calculateSemanticWeight m =
     (if mtype m = Root then 1
      else if mtype m = Prefix then 6 / 10
      else if mtype m = Suffix then 4 / 10
      else 3 / 10)"

definition includesStr :: "string \<Rightarrow> string \<Rightarrow> bool" where
  "includesStr s v = (indexOf s v \<noteq> -1)"

definition categories :: "(string \<times> string list) list" where
  "categories =
     [(''action'', [''-ing'', ''-tion'', ''-sion'', ''-ment'']),
      (''quality'', [''-ness'', ''-ful'', ''-less'']),
      (''agent'', [''-er'', ''-or'']),
      (''degree'', [''-est'', ''-er'', ''over-'', ''under-'']),
      (''negation'', [''un-'', ''dis-'', ''non-'', ''-less'']),
      (''temporal'', [''re-'', ''pre-'', ''-ed'']),
      (''spatial'', [''over-'', ''under-'', ''out-'', ''up-''])]"

definition categorizeSemantics :: "morpheme \<Rightarrow> string" where
  "categorizeSemantics m =
     (case find (\<lambda>(category, ms). list_ex (\<lambda>x. includesStr (mvalue m) x \<or> includesStr x (mvalue m)) ms)
             categories of
        Some (category, ms) \<Rightarrow> category
      | None \<Rightarrow> ''conceptual'')"

record semanticComponent =
  component :: string
  semanticWeight :: rat
  conceptualCategory :: string

definition extractSemanticComponents :: "string \<Rightarrow> semanticComponent list" where
  "extractSemanticComponents word =
     map (\<lambda>m. \<lparr>component = mvalue m,
                semanticWeight = calculateSemanticWeight m,
                conceptualCategory = categorizeSemantics m\<rparr>)
         (decomposeMorphemes word)"

text \<open>
  The result of \<^verbatim>\<open>analyzeWord\<close>. The transformation engine tests the fields
  \<^verbatim>\<open>morphemes\<close> and \<^verbatim>\<open>semanticComponents\<close> for presence, and entries loaded from
  disk carry an analysis without semantic components, so both are optional here. The
  field \<^verbatim>\<open>etymology\<close> (the free-form answer of the enrichment service, or fixed
  defaults when it fails) is read by none of the operations below and is left out; so is
  the analyzer's cache, which returns what the analysis computes.
\<close>

record analysis =
  word :: string
  morphemes :: "morpheme list option"
  phoneticStructureOf :: phoneticStructure
  semanticComponents :: "semanticComponent list option"

definition analyzeWord :: "string \<Rightarrow> analysis" where
  "analyzeWord w =
     \<lparr>word = w,
      morphemes = Some (decomposeMorphemes w),
      phoneticStructureOf = analyzePhoneticStructure w,
      semanticComponents = Some (extractSemanticComponents w)\<rparr>"

section \<open>PhoneticMapper (phonetic-mapper.js)\<close>

text \<open>
  The style is a string in the source; \<^verbatim>\<open>applySystematicTransformations\<close> knows four
  names and sends every other string to the default branch.
\<close>

datatype style = ConsonantShift | VowelHarmony | MorphemeEmphasis | PhoneticLogic | DefaultStyle

text \<open>
  \<^verbatim>\<open>Math.random\<close> is an input of the model: \<open>rnd k\<close> is the \<open>k\<close>-th draw, and
  \<^verbatim>\<open>xs[Math.floor(Math.random() * xs.length)]\<close> picks \<open>xs ! (rnd k mod length xs)\<close>.
  Functions that draw take the index of the next draw and return the index after their
  last one.
\<close>

type_synonym rng = "nat \<Rightarrow> nat"

definition pick :: "rng \<Rightarrow> nat \<Rightarrow> 'a list \<Rightarrow> 'a" where
  "pick rnd k xs = xs ! (rnd k mod length xs)"

subsection \<open>consonant_shift\<close>

definition shiftRules :: "(char \<times> char) list" where
  "shiftRules =
     [(CHR ''b'', CHR ''p''), (CHR ''p'', CHR ''b''), (CHR ''d'', CHR ''t''),
      (CHR ''t'', CHR ''d''), (CHR ''g'', CHR ''k''), (CHR ''k'', CHR ''g''),
      (CHR ''v'', CHR ''f''), (CHR ''f'', CHR ''v''), (CHR ''z'', CHR ''s''),
      (CHR ''s'', CHR ''z''), (CHR ''j'', CHR ''y''), (CHR ''w'', CHR ''v'')]"

text \<open>
  \<^verbatim>\<open>isInRootMorpheme\<close> locates a root by \<^verbatim>\<open>word.indexOf(morpheme.value)\<close>; the
  result \<open>-1\<close> of a failed search enters the comparison as it is.
\<close>

fun isInRootLoop :: "morpheme list \<Rightarrow> int \<Rightarrow> string \<Rightarrow> bool" where
  "isInRootLoop [] position w = False"
| "isInRootLoop (m # ms) position w =
     (if mtype m = Root
      then (let start = indexOf w (mvalue m);
                end = start + int (length (mvalue m))
            in if position \<ge> start \<and> position < end then True
               else isInRootLoop ms position w)
      else isInRootLoop ms position w)"

definition isInRootMorpheme :: "int \<Rightarrow> string \<Rightarrow> analysis \<Rightarrow> bool" where
  "isInRootMorpheme position w e =
     (case morphemes e of None \<Rightarrow> True | Some ms \<Rightarrow> isInRootLoop ms position w)"

definition applyConsonantShift :: "string \<Rightarrow> analysis \<Rightarrow> string" where
  "applyConsonantShift w e =
     map (\<lambda>i. let char = w ! i
              in case map_of shiftRules char of
                   Some shifted \<Rightarrow> if isInRootMorpheme (int i) w e then shifted else char
                 | None \<Rightarrow> char)
         [0 ..< length w]"

subsection \<open>vowel_harmony\<close>

definition harmonyFront :: string where "harmonyFront = ''ei''"
definition harmonyBack :: string where "harmonyBack = ''aou''"

definition applyVowelHarmony :: "rng \<Rightarrow> nat \<Rightarrow> string \<Rightarrow> string \<times> nat" where
  "applyVowelHarmony rnd k w =
     (let front = length (filter (\<lambda>c. c \<in> set harmonyFront) w);
          back = length (filter (\<lambda>c. c \<in> set harmonyBack) w);
          dominantFront = (front > back)
      in fold (\<lambda>char (result, k).
                 if char \<in> set ''aeiou''
                 then if dominantFront \<and> char \<in> set harmonyBack
                      then (result @ [pick rnd k harmonyFront], Suc k)
                      else if \<not> dominantFront \<and> char \<in> set harmonyFront
                      then (result @ [pick rnd k harmonyBack], Suc k)
                      else (result @ [char], k)
                 else (result @ [char], k))
              w ([], k))"

subsection \<open>morpheme_emphasis\<close>

definition addRootEmphasis :: "string \<Rightarrow> string" where
  "addRootEmphasis m =
     (if length m > 3
      then (let mid = length m div 2
            in substring m 0 mid @ [m ! mid] @ substringFrom m mid)
      else m)"

definition emphasizeMorpheme :: "string \<Rightarrow> morpheme \<Rightarrow> string" where
  "emphasizeMorpheme text info = (if mtype info = Root then addRootEmphasis text else text)"

definition applyMorphemeEmphasis :: "string \<Rightarrow> analysis \<Rightarrow> string" where
  "applyMorphemeEmphasis w e =
     (case morphemes e of
        None \<Rightarrow> w
      | Some ms \<Rightarrow>
          fst (fold (\<lambda>m (result, offset).
                       if mtype m = Root
                       then (let start = indexOfFrom result (mvalue m) offset
                             in if start \<noteq> -1
                                then (let s = nat start;
                                          n = length (mvalue m);
                                          morphemeText = substring result s (s + n);
                                          emphasized = emphasizeMorpheme morphemeText m
                                      in (substring result 0 s @ emphasized
                                            @ substringFrom result (s + n),
                                          s + length emphasized))
                                else (result, offset))
                       else (result, offset))
                    ms (w, 0)))"

subsection \<open>phonetic_logic\<close>

definition consonantClusters :: "(string \<times> string list) list" where
  "consonantClusters =
     [(''th'', [''th'', ''tth'', ''dhh'']), (''ch'', [''ch'', ''tch'', ''kh'']),
      (''sh'', [''sh'', ''shh'', ''zh'']), (''ph'', [''ph'', ''ff'', ''f'']),
      (''gh'', [''gh'', ''g'', ''f'']), (''ck'', [''ck'', ''k'', ''kk'']),
      (''ng'', [''ng'', ''ngg''])]"

text \<open>
  Only the first transform of a cluster is read. The third transform of \<^verbatim>\<open>ng\<close> in the
  source is the letter eng, which lies beyond the modelled code units and is not listed.
\<close>

text \<open>
  \<^verbatim>\<open>s.replace(new RegExp(pat, 'g'), rep)\<close> for a pattern of plain letters: every
  occurrence found by a scan from the left is replaced, and the scan goes on behind the
  occurrence. The patterns of the source are the cluster names, which are not empty.
\<close>

function replaceAllLit :: "string \<Rightarrow> string \<Rightarrow> string \<Rightarrow> string" where
  "replaceAllLit pat rep [] = []"
| "replaceAllLit pat rep (c # cs) =
     (if pat \<noteq> [] \<and> startsWith (c # cs) pat
      then rep @ replaceAllLit pat rep (drop (length pat) (c # cs))
      else c # replaceAllLit pat rep cs)"
  by pat_completeness auto
termination
  by (relation "measure (\<lambda>(pat, rep, s). length s)") auto

definition handleConsonantClusters :: "string \<Rightarrow> string" where
  "handleConsonantClusters w =
     fold (\<lambda>(cluster, transforms) result.
             if includesStr result cluster
             then replaceAllLit cluster (hd transforms) result
             else result)
          consonantClusters w"

text \<open>\<^verbatim>\<open>word.replace(/([aeiou])([aeiou])/g, '$1$2')\<close>.\<close>

fun applySyllableRules :: "string \<Rightarrow> string" where
  "applySyllableRules (a # b # cs) =
     (if a \<in> set ''aeiou'' \<and> b \<in> set ''aeiou''
      then a # b # applySyllableRules cs
      else a # applySyllableRules (b # cs))"
| "applySyllableRules cs = cs"

text \<open>
  The regular expressions \<^verbatim>\<open>/(.)\1{2,}/g\<close> and \<^verbatim>\<open>/(.)\1{3,}/g\<close> with the
  replacement \<^verbatim>\<open>'$1$1'\<close>: at a character that is followed by enough copies of itself
  the greedy quantifier takes the whole run, which becomes \<open>keep\<close> copies. The dot
  matches no line terminator (LF and CR below 256).
\<close>

definition isLineTerminator :: "char \<Rightarrow> bool" where
  "isLineTerminator c = ((of_char c :: nat) \<in> {10, 13})"

function replaceRuns :: "nat \<Rightarrow> nat \<Rightarrow> string \<Rightarrow> string" where
  "replaceRuns n keep [] = []"
| "replaceRuns n keep (c # cs) =
     (if \<not> isLineTerminator c \<and> n \<le> Suc (length (takeWhile (\<lambda>x. x = c) cs))
      then replicate keep c @ replaceRuns n keep (dropWhile (\<lambda>x. x = c) cs)
      else c # replaceRuns n keep cs)"
  by pat_completeness auto
termination
  by (relation "measure (\<lambda>(n, keep, s). length s)")
     (auto simp: length_dropWhile_le less_Suc_eq_le)

definition maintainPhoneticIntegrity :: "string \<Rightarrow> string" where
  "maintainPhoneticIntegrity w = replaceRuns 3 2 w"

definition applyPhoneticLogic :: "string \<Rightarrow> analysis \<Rightarrow> string" where
  "applyPhoneticLogic w e =
     maintainPhoneticIntegrity (applySyllableRules (handleConsonantClusters w))"

subsection \<open>The default style\<close>

text \<open>
  \<^verbatim>\<open>calculateOverallSemanticWeight\<close> averages the weights of the components, reading
  a weight of 0 as 0.5 (\<^verbatim>\<open>component.semanticWeight || 0.5\<close>). Without the field the
  weight is 0.5. For an empty list the source divides 0 by 0: the result is NaN, here
  \<open>None\<close>, and every comparison with it is false.
\<close>

definition calculateOverallSemanticWeight :: "analysis \<Rightarrow> rat option" where
  "calculateOverallSemanticWeight e =
     (case semanticComponents e of
        None \<Rightarrow> Some (1 / 2)
      | Some cs \<Rightarrow>
          (let totalWeight =
                 fold (\<lambda>c total. total + (if semanticWeight c = 0 then 1 / 2 else semanticWeight c))
                      cs 0
           in if cs = [] then None else Some (totalWeight / of_nat (length cs))))"

definition exceeds :: "rat option \<Rightarrow> rat \<Rightarrow> bool" where
  "exceeds x bound = (case x of None \<Rightarrow> False | Some v \<Rightarrow> v > bound)"

definition mildShifts :: "(string \<times> string) list" where
  "mildShifts = [(''c'', ''k''), (''k'', ''c''), (''f'', ''ph''), (''ph'', ''f'')]"

text \<open>
  \<^verbatim>\<open>applyMildConsonantShift\<close> looks every single character up in the table, so the
  key \<^verbatim>\<open>ph\<close> is never found.
\<close>

definition applyMildConsonantShift :: "string \<Rightarrow> string" where
  "applyMildConsonantShift w =
     fold (\<lambda>char result. result @ (case map_of mildShifts [char] of Some r \<Rightarrow> r | None \<Rightarrow> [char]))
          w []"

definition vowelVariants :: "(char \<times> string list) list" where
  "vowelVariants =
     [(CHR ''a'', [''a'', ''aa'']), (CHR ''e'', [''e'', ''ee'']), (CHR ''i'', [''i'', ''ii'']),
      (CHR ''o'', [''o'', ''oo'']), (CHR ''u'', [''u'', ''uu''])]"

definition applyVowelVariation :: "rng \<Rightarrow> nat \<Rightarrow> string \<Rightarrow> string \<times> nat" where
  "applyVowelVariation rnd k w =
     fold (\<lambda>char (result, k).
             case map_of vowelVariants char of
               Some variants \<Rightarrow> (result @ pick rnd k variants, Suc k)
             | None \<Rightarrow> (result @ [char], k))
          w ([], k)"

definition applyDefaultTransformation :: "rng \<Rightarrow> nat \<Rightarrow> string \<Rightarrow> analysis \<Rightarrow> string \<times> nat" where
  "applyDefaultTransformation rnd k w e =
     (let semanticWeight = calculateOverallSemanticWeight e;
          transformationIntensity = map_option (\<lambda>x. min 1 (x * (1 / 2))) semanticWeight;
          result1 = (if exceeds transformationIntensity (3 / 10)
                     then applyMildConsonantShift w else w)
      in if exceeds transformationIntensity (6 / 10)
         then applyVowelVariation rnd k result1
         else (result1, k))"

subsection \<open>transformWord\<close>

definition applySystematicTransformations ::
  "rng \<Rightarrow> nat \<Rightarrow> string \<Rightarrow> analysis \<Rightarrow> style \<Rightarrow> string \<times> nat" where
  "applySystematicTransformations rnd k w e st =
     (case st of
        ConsonantShift \<Rightarrow> (applyConsonantShift w e, k)
      | VowelHarmony \<Rightarrow> applyVowelHarmony rnd k w
      | MorphemeEmphasis \<Rightarrow> (applyMorphemeEmphasis w e, k)
      | PhoneticLogic \<Rightarrow> (applyPhoneticLogic w e, k)
      | DefaultStyle \<Rightarrow> applyDefaultTransformation rnd k w e)"

definition transformPrefix :: "string \<Rightarrow> morpheme \<Rightarrow> style \<Rightarrow> string" where
  "transformPrefix w m st = w"

definition transformSuffix :: "string \<Rightarrow> morpheme \<Rightarrow> style \<Rightarrow> string" where
  "transformSuffix w m st = w"

definition transformRoot :: "string \<Rightarrow> morpheme \<Rightarrow> style \<Rightarrow> string" where
  "transformRoot w m st = w"

definition applyMorphemeBasedRules :: "string \<Rightarrow> morpheme list \<Rightarrow> style \<Rightarrow> string" where
  "applyMorphemeBasedRules w ms st =
     fold (\<lambda>m result.
             if mtype m = Prefix then transformPrefix result m st
             else if mtype m = Suffix then transformSuffix result m st
             else if mtype m = Root then transformRoot result m st
             else result)
          ms w"

text \<open>
  \<^verbatim>\<open>applyPhoneticConsistency\<close>: runs of four or more become two characters; then
  \<^verbatim>\<open>/^(.)\1+/\<close> cuts a repeated first character down to one, and \<^verbatim>\<open>/(.)\1+$/\<close>
  does the same at the first position from which the rest of the word is one repeated
  character.
\<close>

definition collapseLeading :: "string \<Rightarrow> string" where
  "collapseLeading w =
     (case w of
        [] \<Rightarrow> []
      | c # cs \<Rightarrow> if \<not> isLineTerminator c \<and> takeWhile (\<lambda>x. x = c) cs \<noteq> []
                  then c # dropWhile (\<lambda>x. x = c) cs
                  else w)"

fun collapseTrailing :: "string \<Rightarrow> string" where
  "collapseTrailing [] = []"
| "collapseTrailing (c # cs) =
     (if \<not> isLineTerminator c \<and> cs \<noteq> [] \<and> list_all (\<lambda>x. x = c) cs
      then [c]
      else c # collapseTrailing cs)"

definition applyPhoneticConsistency :: "string \<Rightarrow> string" where
  "applyPhoneticConsistency w = collapseTrailing (collapseLeading (replaceRuns 4 2 w))"

definition transformWord :: "rng \<Rightarrow> nat \<Rightarrow> string \<Rightarrow> analysis \<Rightarrow> style \<Rightarrow> string \<times> nat" where
  "transformWord rnd k w e st =
     (let transformed = toLowerCase w;
          ms = (case morphemes e of None \<Rightarrow> [] | Some ms \<Rightarrow> ms);
          (transformed1, k1) = applySystematicTransformations rnd k transformed e st;
          transformed2 = applyMorphemeBasedRules transformed1 ms st;
          transformed3 = applyPhoneticConsistency transformed2
      in (transformed3, k1))"

subsection \<open>Pronunciation\<close>

definition asciiCombinations :: "(string \<times> string) list" where
  "asciiCombinations =
     [(''th'', ''th''), (''ch'', ''ch''), (''sh'', ''sh''), (''ph'', ''f''), (''gh'', ''g''),
      (''ck'', ''k''), (''ng'', ''ng''), (''qu'', ''kw'')]"

definition asciiPhoneticMap :: "(char \<times> string) list" where
  "asciiPhoneticMap =
     [(CHR ''a'', ''a''), (CHR ''e'', ''e''), (CHR ''i'', ''i''), (CHR ''o'', ''o''),
      (CHR ''u'', ''u''), (CHR ''y'', ''y''),
      (CHR ''b'', ''b''), (CHR ''c'', ''k''), (CHR ''d'', ''d''), (CHR ''f'', ''f''),
      (CHR ''g'', ''g''), (CHR ''h'', ''h''), (CHR ''j'', ''j''), (CHR ''k'', ''k''),
      (CHR ''l'', ''l''), (CHR ''m'', ''m''), (CHR ''n'', ''n''), (CHR ''p'', ''p''),
      (CHR ''r'', ''r''), (CHR ''s'', ''s''), (CHR ''t'', ''t''), (CHR ''v'', ''v''),
      (CHR ''w'', ''w''), (CHR ''x'', ''ks''), (CHR ''z'', ''z'')]"

text \<open>
  \<^verbatim>\<open>getAsciiPhoneme(char, word, position)\<close> reads and writes the field
  \<^verbatim>\<open>this._skipNext\<close> of the mapper; the model takes the flag and returns it with the
  phoneme. The character after the last one is the empty string.
\<close>

definition getAsciiPhoneme :: "bool \<Rightarrow> char \<Rightarrow> string \<Rightarrow> nat \<Rightarrow> string \<times> bool" where
  "getAsciiPhoneme skipNext char w position =
     (let lowerChar = toLowerCaseChar char;
          nextChar = (if Suc position < length w then [toLowerCaseChar (w ! Suc position)] else []);
          twoChar = lowerChar # nextChar
      in case map_of asciiCombinations twoChar of
           Some combo \<Rightarrow> (combo, True)
         | None \<Rightarrow>
             if skipNext then ([], False)
             else (case map_of asciiPhoneticMap lowerChar of
                     Some p \<Rightarrow> (p, skipNext)
                   | None \<Rightarrow> ([lowerChar], skipNext)))"

definition generateAsciiPronunciation :: "bool \<Rightarrow> string \<Rightarrow> string \<times> bool" where
  "generateAsciiPronunciation skipNext w =
     fold (\<lambda>i (pronunciation, skipNext).
             let (asciiPhoneme, skipNext') = getAsciiPhoneme skipNext (w ! i) w i
             in (pronunciation @ asciiPhoneme, skipNext'))
          [0 ..< length w] ([], skipNext)"

text \<open>
  The symbolic renderer maps each character through a table of phonetic symbols, most of
  them beyond the modelled code units; the table is a parameter.
\<close>

definition getPhoneme :: "(char \<rightharpoonup> string) \<Rightarrow> char \<Rightarrow> string" where
  "getPhoneme phoneticMap char =
     (case phoneticMap (toLowerCaseChar char) of Some p \<Rightarrow> p | None \<Rightarrow> [char])"

definition generatePronunciation :: "(char \<rightharpoonup> string) \<Rightarrow> string \<Rightarrow> string" where
  "generatePronunciation phoneticMap w =
     fold (\<lambda>i pronunciation. pronunciation @ getPhoneme phoneticMap (w ! i))
          [0 ..< length w] ''/'' @ ''/''"

section \<open>LanguageGenerator (language-generator.js)\<close>

subsection \<open>Data\<close>

text \<open>
  Definitions come from the enrichment client when there is one. Its
  \<^verbatim>\<open>getDefinitions\<close> catches a failed request and answers with default definitions, so
  the client is a total function here. Without a client the generator uses a placeholder
  that has no part-of-speech field.
\<close>

record definitions =
  primary :: "string list"
  partOfSpeechTags :: "string list option"

text \<open>
  A vocabulary entry. The fields \<^verbatim>\<open>phoneticStructure\<close>, \<^verbatim>\<open>transformationRules\<close> and
  \<^verbatim>\<open>created\<close> (diagnostics of the constructed word and a time stamp) are read by no
  operation below and are left out.
\<close>

record vocabularyEntry =
  english :: string
  sigment :: string
  pronunciation :: string
  definitionsOf :: definitions
  etymologyOf :: analysis
  partOfSpeech :: string
  frequency :: string

record languageConfig =
  name :: string
  styleOf :: style
  asciiPronunciation :: bool

text \<open>
  \<^verbatim>\<open>vocabulary\<close> and \<^verbatim>\<open>etymologicalMaps\<close> are JavaScript \<^verbatim>\<open>Map\<close>s: association
  lists in insertion order, where \<^verbatim>\<open>set\<close> replaces the value of a present key in place
  and appends a new key (\<^const>\<open>AList.update\<close>), \<^verbatim>\<open>has\<close> and \<^verbatim>\<open>get\<close> are
  \<^const>\<open>map_of\<close>, and \<^verbatim>\<open>size\<close> is the length.
\<close>

record language =
  config :: languageConfig
  vocabulary :: "(string \<times> vocabularyEntry) list"
  etymologicalMaps :: "(string \<times> vocabularyEntry) list"

text \<open>What a run is given from outside: the random draws, the table of phonetic symbols and
  the enrichment client, if any.\<close>

record env =
  envRnd :: rng
  envPhoneticMap :: "char \<rightharpoonup> string"
  envClient :: "(string \<Rightarrow> definitions) option"

text \<open>What the generator and its mapper change while they run.\<close>

record generator =
  nextDraw :: nat
  skipNext :: bool
  wordsProcessed :: nat

subsection \<open>processWord\<close>

definition posMap :: "(string \<times> string) list" where
  "posMap =
     [(''-ing'', ''verb/noun''), (''-ed'', ''verb''), (''-er'', ''noun''),
      (''-est'', ''adjective''), (''-ly'', ''adverb''), (''-tion'', ''noun''),
      (''-ness'', ''noun''), (''-ful'', ''adjective''), (''-less'', ''adjective'')]"

fun joinWith :: "string \<Rightarrow> string list \<Rightarrow> string" where
  "joinWith sep [] = []"
| "joinWith sep [x] = x"
| "joinWith sep (x # y # ys) = x @ sep @ joinWith sep (y # ys)"

definition determinePartOfSpeech :: "string \<Rightarrow> analysis \<Rightarrow> definitions \<Rightarrow> string" where
  "determinePartOfSpeech w e defs =
     (let ms = (case morphemes e of None \<Rightarrow> [] | Some ms \<Rightarrow> ms);
          suffixMorphemes = filter (\<lambda>m. mtype m = Suffix \<and> mvalue m \<noteq> []) ms;
          fromSuffix = (case suffixMorphemes of
                          [] \<Rightarrow> None
                        | m # _ \<Rightarrow> map_of posMap (mvalue m))
      in case fromSuffix of
           Some pos \<Rightarrow> pos
         | None \<Rightarrow>
             (case partOfSpeechTags defs of
                Some (t # ts) \<Rightarrow> joinWith ''/'' (t # ts)
              | _ \<Rightarrow> ''unknown''))"

definition commonWords :: "string list" where
  "commonWords =
     [''the'', ''be'', ''to'', ''of'', ''and'', ''a'', ''in'', ''that'', ''have'', ''i'',
      ''it'', ''for'', ''not'', ''on'', ''with'', ''he'', ''as'', ''you'', ''do'', ''at'']"

definition calculateWordFrequency :: "string \<Rightarrow> string" where
  "calculateWordFrequency w =
     (if toLowerCase w \<in> set commonWords then ''high''
      else if length w \<le> 4 then ''medium''
      else ''low'')"

text \<open>
  \<^verbatim>\<open>processWord\<close> analyses the word, maps it, asks for definitions and stores the
  entry under the word. Its body is wrapped in \<^verbatim>\<open>try\<close>; the \<^verbatim>\<open>catch\<close> branch
  records the error and leaves the vocabulary alone. No step of the body raises: the
  analyzer and the mapper are the total functions above, and the client recovers from its
  own failures. So the model has no error branch, and every call stores an entry.
\<close>

definition processWord :: "env \<Rightarrow> generator \<Rightarrow> language \<Rightarrow> string \<Rightarrow> generator \<times> language" where
  "processWord ev g lang englishWord =
     (let etymology = analyzeWord englishWord;
          (sigmentWord, k) =
             transformWord (envRnd ev) (nextDraw g) englishWord etymology (styleOf (config lang));
          (pron, skip) =
             (if asciiPronunciation (config lang)
              then generateAsciiPronunciation (skipNext g) sigmentWord
              else (generatePronunciation (envPhoneticMap ev) sigmentWord, skipNext g));
          defs = (case envClient ev of
                    None \<Rightarrow> \<lparr>primary = [''Definition of '' @ englishWord],
                              partOfSpeechTags = None\<rparr>
                  | Some client \<Rightarrow> client englishWord);
          vocabularyEntry =
             \<lparr>english = englishWord, sigment = sigmentWord, pronunciation = pron,
              definitionsOf = defs, etymologyOf = etymology,
              partOfSpeech = determinePartOfSpeech englishWord etymology defs,
              frequency = calculateWordFrequency englishWord\<rparr>
      in (g\<lparr>nextDraw := k, skipNext := skip, wordsProcessed := Suc (wordsProcessed g)\<rparr>,
          lang\<lparr>vocabulary := AList.update englishWord vocabularyEntry (vocabulary lang),
               etymologicalMaps :=
                 AList.update sigmentWord vocabularyEntry (etymologicalMaps lang)\<rparr>))"

subsection \<open>processWordsBatch\<close>













subsection \<open>addWordsToLanguage\<close>




subsection \<open>Consistency analysis\<close>

text \<open>
  The two frequency tables of \<^verbatim>\<open>analyzePhoneticPatterns\<close> are \<^verbatim>\<open>Map\<close>s from a
  source character to a \<^verbatim>\<open>Map\<close> from the constructed character seen at the same index
  (the empty string where the constructed word is shorter) to a count.
\<close>

type_synonym transforms = "(string \<times> nat) list"
type_synonym transformTable = "(char \<times> transforms) list"

record patterns =
  vowelTransformations :: transformTable
  consonantShifts :: transformTable

definition recordTransform :: "char \<Rightarrow> string \<Rightarrow> transformTable \<Rightarrow> transformTable" where
  "recordTransform key sigmentChar tbl =
     (let tbl1 = (if map_of tbl key = None then AList.update key [] tbl else tbl);
          transforms = (case map_of tbl1 key of Some t \<Rightarrow> t | None \<Rightarrow> []);
          seen = (case map_of transforms sigmentChar of Some n \<Rightarrow> n | None \<Rightarrow> 0)
      in AList.update key (AList.update sigmentChar (seen + 1) transforms) tbl1)"

definition analyzeEntry :: "string \<Rightarrow> vocabularyEntry \<Rightarrow> patterns \<Rightarrow> patterns" where
  "analyzeEntry eng entry p =
     fold (\<lambda>i p.
             let englishChar = toLowerCaseChar (eng ! i);
                 sigmentChar = (if i < length (sigment entry)
                                then [toLowerCaseChar (sigment entry ! i)] else []);
                 p1 = (if englishChar \<in> set ''aeiou''
                       then p\<lparr>vowelTransformations :=
                                recordTransform englishChar sigmentChar (vowelTransformations p)\<rparr>
                       else p)
             in if englishChar \<in> set ''bcdfghjklmnpqrstvwxyz''
                then p1\<lparr>consonantShifts :=
                          recordTransform englishChar sigmentChar (consonantShifts p1)\<rparr>
                else p1)
          [0 ..< length eng] p"

definition analyzePatternTables :: "(string \<times> vocabularyEntry) list \<Rightarrow> patterns" where
  "analyzePatternTables entries =
     fold (\<lambda>(eng, entry) p. analyzeEntry eng entry p) entries
          \<lparr>vowelTransformations = [], consonantShifts = []\<rparr>"

text \<open>
  \<^verbatim>\<open>calculateConsistencyScore\<close>. The counts of a table row are positive integers and
  every row has at least one, so \<^verbatim>\<open>Math.max(...counts)\<close> is the fold of \<open>max\<close> from 0.
  Scores are JavaScript numbers; the model computes with exact rationals.
\<close>

definition scoreRow :: "char \<times> transforms \<Rightarrow> rat \<times> nat \<Rightarrow> rat \<times> nat" where
  "scoreRow row acc =
     (let transformCount = map snd (snd row);
          maxCount = fold max transformCount 0;
          totalCount = fold (\<lambda>b a. a + b) transformCount 0
      in (fst acc + (of_nat maxCount / of_nat totalCount) * 100, Suc (snd acc)))"

definition calculateConsistencyScore :: "patterns \<Rightarrow> rat" where
  "calculateConsistencyScore p =
     (let acc1 = fold scoreRow (vowelTransformations p) (0, 0);
          (totalScore, factors) = fold scoreRow (consonantShifts p) acc1
      in if factors > 0 then totalScore / of_nat factors else 0)"

record phoneticPatterns =
  tables :: patterns
  consistencyScore :: rat

definition analyzePhoneticPatterns :: "language \<Rightarrow> phoneticPatterns" where
  "analyzePhoneticPatterns l =
     (let p = analyzePatternTables (vocabulary l)
      in \<lparr>tables = p, consistencyScore = calculateConsistencyScore p\<rparr>)"

subsection \<open>reconstructDictionary\<close>







section \<open>Notions of the specification and of the proofs\<close>

text \<open>
  The definitions of this section are not code of the program. They say in the words of
  the specification what the theorems below compare the program with, name the
  intermediate notions of the proofs, and fix the small inputs of the examples.
\<close>

subsection \<open>Morphemes\<close>

definition valuesOf :: "morphemeType \<Rightarrow> morpheme list \<Rightarrow> string list" where
  "valuesOf t ms = map mvalue (filter (\<lambda>m. mtype m = t) ms)"

definition chosen :: "string option \<Rightarrow> string" where
  "chosen x = (case x of None \<Rightarrow> [] | Some v \<Rightarrow> v)"

subsection \<open>New words\<close>


subsection \<open>Vowel runs\<close>

text \<open>
  A maximal run of characters with the property \<open>P\<close> starts at an index that has \<open>P\<close>
  and is either the first or follows a character without \<open>P\<close>; the number of runs is
  the number of such indices.
\<close>

definition runStart :: "(char \<Rightarrow> bool) \<Rightarrow> string \<Rightarrow> nat \<Rightarrow> bool" where
  "runStart P s i = (P (s ! i) \<and> (i = 0 \<or> \<not> P (s ! (i - 1))))"

definition countRuns :: "(char \<Rightarrow> bool) \<Rightarrow> string \<Rightarrow> nat" where
  "countRuns P s = length (filter (runStart P s) [0 ..< length s])"

text \<open>
  The number of run starts, counted along the list: \<open>prev\<close> says whether the character
  before the list has the property.
\<close>

fun runsFrom :: "(char \<Rightarrow> bool) \<Rightarrow> bool \<Rightarrow> string \<Rightarrow> nat" where
  "runsFrom P prev [] = 0"
| "runsFrom P prev (c # cs) = (if P c \<and> \<not> prev then 1 else 0) + runsFrom P (P c) cs"

subsection \<open>Plain-character pronunciation\<close>

text \<open>
  The renderer in the words of the specification: scan from the left; where the next two
  characters form a digraph of the table, render the digraph and go on behind both
  characters; otherwise render one character by the single-character table.
\<close>

definition asciiSingle :: "char \<Rightarrow> string" where
  "asciiSingle c =
     (case map_of asciiPhoneticMap (toLowerCaseChar c) of
        Some p \<Rightarrow> p
      | None \<Rightarrow> [toLowerCaseChar c])"

fun scanAsciiPronunciation :: "string \<Rightarrow> string" where
  "scanAsciiPronunciation (a # b # cs) =
     (case map_of asciiCombinations [toLowerCaseChar a, toLowerCaseChar b] of
        Some combo \<Rightarrow> combo @ scanAsciiPronunciation cs
      | None \<Rightarrow> asciiSingle a @ scanAsciiPronunciation (b # cs))"
| "scanAsciiPronunciation [a] = asciiSingle a"
| "scanAsciiPronunciation [] = []"

subsection \<open>Digraphs that overlap\<close>

text \<open>
  Two characters form a digraph when their lower-cased pair is a key of the table. A word
  has no overlapping digraphs when the second character of a digraph never forms a
  digraph with the character behind it. \<open>renderFrom\<close> is the renderer of the program as
  a recursion along the word, for the proofs.
\<close>

definition isDigraph :: "char \<Rightarrow> char \<Rightarrow> bool" where
  "isDigraph a b = (map_of asciiCombinations [toLowerCaseChar a, toLowerCaseChar b] \<noteq> None)"

fun noOverlap :: "string \<Rightarrow> bool" where
  "noOverlap (a # b # c # rest) = (\<not> (isDigraph a b \<and> isDigraph b c) \<and> noOverlap (b # c # rest))"
| "noOverlap cs = True"

fun renderFrom :: "bool \<Rightarrow> string \<Rightarrow> string \<times> bool" where
  "renderFrom sk [] = ([], sk)"
| "renderFrom sk (c # cs) =
     (let (ph, sk1) = getAsciiPhoneme sk c (c # cs) 0;
          (rest, sk2) = renderFrom sk1 cs
      in (ph @ rest, sk2))"

subsection \<open>Consistency\<close>

text \<open>
  The observations of a vocabulary: for every entry and every index of its source word,
  the lower-cased source character with the lower-cased constructed character at the same
  index (the empty string behind the end of the constructed word).
\<close>

definition entryObservations :: "string \<Rightarrow> string \<Rightarrow> (char \<times> string) list" where
  "entryObservations eng sg =
     map (\<lambda>i. (toLowerCaseChar (eng ! i),
               if i < length sg then [toLowerCaseChar (sg ! i)] else []))
         [0 ..< length eng]"

definition observations :: "(string \<times> vocabularyEntry) list \<Rightarrow> (char \<times> string) list" where
  "observations entries = concat (map (\<lambda>(eng, entry). entryObservations eng (sigment entry)) entries)"

definition isSourceVowel :: "char \<Rightarrow> bool" where
  "isSourceVowel c = (c \<in> set ''aeiou'')"

definition isSourceConsonant :: "char \<Rightarrow> bool" where
  "isSourceConsonant c = (c \<in> set ''bcdfghjklmnpqrstvwxyz'')"

definition targetsOf :: "char \<Rightarrow> (char \<times> string) list \<Rightarrow> string list" where
  "targetsOf c obs = map snd (filter (\<lambda>ob. fst ob = c) obs)"

definition mostFrequentCount :: "string list \<Rightarrow> nat" where
  "mostFrequentCount ts = Max (count_list ts ` set ts)"

definition percentage :: "char \<Rightarrow> (char \<times> string) list \<Rightarrow> rat" where
  "percentage c obs =
     of_nat (mostFrequentCount (targetsOf c obs)) / of_nat (length (targetsOf c obs)) * 100"

definition observedChars :: "(char \<times> string) list \<Rightarrow> char set" where
  "observedChars obs = {c \<in> fst ` set obs. isSourceVowel c \<or> isSourceConsonant c}"

definition meanConsistency :: "(string \<times> vocabularyEntry) list \<Rightarrow> rat" where
  "meanConsistency entries =
     (let obs = observations entries; cs = observedChars obs
      in if cs = {} then 0 else (\<Sum>c\<in>cs. percentage c obs) / of_nat (card cs))"

subsection \<open>Words without capital letters\<close>

definition noUpperCase :: "string \<Rightarrow> bool" where
  "noUpperCase s = (\<forall>c \<in> set s. \<not> isUpperCaseChar c)"

subsection \<open>Random draws for examples\<close>

text \<open>The draws that always pick the second of two variants.\<close>

definition alwaysSecond :: rng where
  "alwaysSecond k = 1"

subsection \<open>A small run for examples\<close>

definition exampleEnv :: env where
  "exampleEnv = \<lparr>envRnd = alwaysSecond, envPhoneticMap = Map.empty, envClient = None\<rparr>"

definition freshGenerator :: generator where
  "freshGenerator = \<lparr>nextDraw = 0, skipNext = False, wordsProcessed = 0\<rparr>"

definition emptyLanguage :: language where
  "emptyLanguage =
     \<lparr>config = \<lparr>name = ''Example'', styleOf = DefaultStyle, asciiPronunciation = True\<rparr>,
      vocabulary = [], etymologicalMaps = []\<rparr>"




text \<open>
  A language as it is loaded from disk, with two entries whose constructed words
  disagree on the letter \<^verbatim>\<open>c\<close>.
\<close>

definition loadedEntry :: "string \<Rightarrow> string \<Rightarrow> vocabularyEntry" where
  "loadedEntry eng sg =
     \<lparr>english = eng, sigment = sg, pronunciation = sg,
      definitionsOf = \<lparr>primary = [], partOfSpeechTags = None\<rparr>,
      etymologyOf = \<lparr>word = eng, morphemes = Some [],
                     phoneticStructureOf = analyzePhoneticStructure eng,
                     semanticComponents = None\<rparr>,
      partOfSpeech = ''unknown'', frequency = ''unknown''\<rparr>"

definition mixedLanguage :: language where
  "mixedLanguage =
     emptyLanguage\<lparr>vocabulary := [(''cat'', loadedEntry ''cat'' ''kat''),
                                   (''cot'', loadedEntry ''cot'' ''cut'')]\<rparr>"

subsection \<open>What a run without a stop request does to the vocabulary\<close>


subsection \<open>Frequency tables of a list of observations\<close>

text \<open>
  The notions of the proofs about the consistency score: the table of counts that
  repeated \<^verbatim>\<open>transforms.set(c, (transforms.get(c) || 0) + 1)\<close> builds from a list of
  constructed characters, the table that \<^const>\<open>recordTransform\<close> builds from the
  observations whose source character has a property, and the percentage of a table row.
\<close>

definition bumpCount :: "string \<Rightarrow> transforms \<Rightarrow> transforms" where
  "bumpCount s t = AList.update s ((case map_of t s of Some n \<Rightarrow> n | None \<Rightarrow> 0) + 1) t"

definition histogram :: "string list \<Rightarrow> transforms" where
  "histogram ts = fold bumpCount ts []"

definition recordIf :: "(char \<Rightarrow> bool) \<Rightarrow> char \<times> string \<Rightarrow> transformTable \<Rightarrow> transformTable" where
  "recordIf P ob tbl = (if P (fst ob) then recordTransform (fst ob) (snd ob) tbl else tbl)"

definition tableOf :: "(char \<Rightarrow> bool) \<Rightarrow> (char \<times> string) list \<Rightarrow> transformTable" where
  "tableOf P obs = fold (recordIf P) obs []"

definition rowPercentage :: "char \<times> transforms \<Rightarrow> rat" where
  "rowPercentage row =
     of_nat (fold max (map snd (snd row)) 0)
       / of_nat (fold (\<lambda>b a. a + b) (map snd (snd row)) 0) * 100"

section \<open>Properties\<close>

subsection \<open>Syllable count\<close>

lemma filter_upt_Suc_shift:
  "length (filter Q [0 ..< Suc n])
     = (if Q 0 then 1 else 0) + length (filter (\<lambda>i. Q (Suc i)) [0 ..< n])"
proof -
  have "[0 ..< Suc n] = 0 # map Suc [0 ..< n]"
    by (simp add: upt_conv_Cons map_Suc_upt del: upt_Suc)
  then show ?thesis by (simp add: filter_map o_def del: upt_Suc)
qed

lemma runs_index_general:
  "length (filter (\<lambda>i. P (s ! i) \<and> (if i = 0 then \<not> prev else \<not> P (s ! (i - 1))))
             [0 ..< length s])
     = runsFrom P prev s"
proof (induction s arbitrary: prev)
  case Nil
  then show ?case by simp
next
  case (Cons c cs)
  have "length (filter (\<lambda>i. P ((c # cs) ! i)
                            \<and> (if i = 0 then \<not> prev else \<not> P ((c # cs) ! (i - 1))))
                 [0 ..< length (c # cs)])
        = (if P c \<and> \<not> prev then 1 else 0)
          + length (filter (\<lambda>i. P (cs ! i) \<and> (if i = 0 then \<not> P c else \<not> P (cs ! (i - 1))))
                      [0 ..< length cs])"
    unfolding length_Cons filter_upt_Suc_shift by (simp add: nth_Cons')
  then show ?case using Cons.IH[of "P c"] by simp
qed

lemma countRuns_runsFrom: "countRuns P s = runsFrom P False s"
proof -
  have "runStart P s = (\<lambda>i. P (s ! i) \<and> (if i = 0 then \<not> False else \<not> P (s ! (i - 1))))"
    by (auto simp: runStart_def fun_eq_iff)
  then show ?thesis
    unfolding countRuns_def using runs_index_general[of P s False] by simp
qed

lemma runsFrom_True_dropWhile: "runsFrom P True cs = runsFrom P False (dropWhile P cs)"
  by (induction cs) auto

lemma groups_runs: "length (matchVowelGroups s) = runsFrom inSyllableClass False s"
proof (induction s rule: matchVowelGroups.induct)
  case 1
  then show ?case by simp
next
  case (2 c cs)
  then show ?case by (simp add: runsFrom_True_dropWhile)
qed

lemma runsFrom_map: "runsFrom P prev (map f s) = runsFrom (\<lambda>c. P (f c)) prev s"
  by (induction s arbitrary: prev) auto

text \<open>
  Claim C8, as amended. For every word, \<^verbatim>\<open>estimateSyllables\<close> returns the number of
  maximal contiguous runs of characters that are, without regard to case, one of
  \<^verbatim>\<open>a e i o u y\<close>, and 1 when the word has no such character. The letter \<^verbatim>\<open>y\<close>
  counts as a vowel here, as the character class of the regular expression says.
\<close>

theorem estimateSyllables_counts_runs:
  "estimateSyllables w = max 1 (countRuns (\<lambda>c. toLowerCaseChar c \<in> set ''aeiouy'') w)"
proof -
  have "length (matchVowelGroups (toLowerCase w))
          = countRuns (\<lambda>c. toLowerCaseChar c \<in> set ''aeiouy'') w"
    unfolding groups_runs countRuns_runsFrom toLowerCase_def runsFrom_map inSyllableClass_def ..
  moreover have "(matchVowelGroups (toLowerCase w) = [])
                   = (length (matchVowelGroups (toLowerCase w)) = 0)"
    by simp
  ultimately show ?thesis
    unfolding estimateSyllables_def Let_def by (simp only: max_def split: if_splits) presburger
qed

text \<open>The count at the word \<^verbatim>\<open>rhythm\<close>, whose only run is the letter \<^verbatim>\<open>y\<close>.\<close>

theorem estimateSyllables_counts_runs_witness:
  "estimateSyllables ''rhythm'' = 1 \<and>
   countRuns (\<lambda>c. toLowerCaseChar c \<in> set ''aeiouy'') ''rhythm'' = 1"
proof -
  have "countRuns (\<lambda>c. toLowerCaseChar c \<in> set ''aeiouy'') ''rhythm'' = 1"
    by code_simp
  then show ?thesis
    using estimateSyllables_counts_runs[of "''rhythm''"] by simp
qed

text \<open>
  The claim as stated, with the vowels \<^verbatim>\<open>a e i o u\<close> only, fails at \<^verbatim>\<open>happy\<close>: one
  run of such vowels, but two syllables counted.
\<close>

theorem syllables_aeiou_counterexample:
  "estimateSyllables ''happy'' = 2 \<and>
   max 1 (countRuns (\<lambda>c. toLowerCaseChar c \<in> set ''aeiou'') ''happy'') = 1"
  by code_simp

subsection \<open>Morpheme decomposition\<close>

lemma startsWith_prefix: "startsWith r p = prefix p r"
proof
  assume "startsWith r p"
  then have "take (length p) r = p" by (simp add: startsWith_def)
  then show "prefix p r" using take_is_prefix[of "length p" r] by simp
next
  assume "prefix p r"
  then obtain zs where "r = p @ zs" by (auto simp: prefix_def)
  then show "startsWith r p" by (simp add: startsWith_def)
qed

lemma endsWith_suffix: "endsWith r s = suffix s r"
proof
  assume "endsWith r s"
  then have "drop (length r - length s) r = s" by (simp add: endsWith_def)
  then show "suffix s r" using suffix_drop[of "length r - length s" r] by simp
next
  assume "suffix s r"
  then obtain zs where "r = zs @ s" by (auto simp: suffix_def)
  then show "endsWith r s" by (simp add: endsWith_def)
qed

lemma stripPrefix_find:
  "stripPrefix ps ms r =
     (case find (\<lambda>p. prefix p r) ps of
        None \<Rightarrow> (ms, r)
      | Some p \<Rightarrow> (ms @ [\<lparr>mtype = Prefix, mvalue = p, meaning = getPrefixMeaning p\<rparr>],
                   drop (length p) r))"
  by (induction ps) (simp_all add: startsWith_prefix substringFrom_def)

lemma stripSuffix_find:
  "stripSuffix ss ms r =
     (case find (\<lambda>s. suffix s r) ss of
        None \<Rightarrow> (ms, r)
      | Some s \<Rightarrow> (ms @ [\<lparr>mtype = Suffix, mvalue = s, meaning = getSuffixMeaning s\<rparr>],
                   take (length r - length s) r))"
  by (induction ss) (simp_all add: endsWith_suffix substring_def)

lemma find_prefix_split:
  assumes "find (\<lambda>p. prefix p r) ps = Some p"
  shows "r = p @ drop (length p) r"
proof -
  from assms have "prefix p r" by (auto simp: find_Some_iff)
  then obtain zs where "r = p @ zs" by (auto simp: prefix_def)
  then show ?thesis by simp
qed

lemma find_suffix_split:
  assumes "find (\<lambda>s. suffix s r) ss = Some s"
  shows "r = take (length r - length s) r @ s"
proof -
  from assms have "suffix s r" by (auto simp: find_Some_iff)
  then obtain zs where "r = zs @ s" by (auto simp: suffix_def)
  then show ?thesis by simp
qed

lemma decomposeMorphemes_parts:
  fixes w
  defines "r \<equiv> toLowerCase w"
  defines "pre \<equiv> find (\<lambda>p. prefix p r) prefixes"
  defines "rest \<equiv> drop (length (chosen pre)) r"
  defines "suf \<equiv> find (\<lambda>s. suffix s rest) suffixes"
  defines "residual \<equiv> take (length rest - length (chosen suf)) rest"
  shows "decomposeMorphemes w =
      (case pre of None \<Rightarrow> []
       | Some p \<Rightarrow> [\<lparr>mtype = Prefix, mvalue = p, meaning = getPrefixMeaning p\<rparr>])
      @ (case suf of None \<Rightarrow> []
         | Some s \<Rightarrow> [\<lparr>mtype = Suffix, mvalue = s, meaning = getSuffixMeaning s\<rparr>])
      @ (if residual = [] then []
         else [\<lparr>mtype = Root, mvalue = residual, meaning = ''core meaning''\<rparr>])"
proof -
  have sp: "stripPrefix prefixes [] r =
      ((case pre of None \<Rightarrow> []
        | Some p \<Rightarrow> [\<lparr>mtype = Prefix, mvalue = p, meaning = getPrefixMeaning p\<rparr>]), rest)"
    unfolding stripPrefix_find rest_def pre_def by (simp add: chosen_def split: option.splits)
  have ss: "stripSuffix suffixes ms rest =
      (ms @ (case suf of None \<Rightarrow> []
        | Some s \<Rightarrow> [\<lparr>mtype = Suffix, mvalue = s, meaning = getSuffixMeaning s\<rparr>]), residual)" for ms
    unfolding stripSuffix_find residual_def suf_def by (simp add: chosen_def split: option.splits)
  show ?thesis
    unfolding decomposeMorphemes_def r_def[symmetric] sp
    by (simp add: ss)
qed

text \<open>
  Claim C7, as amended. For every word, with \<open>r\<close> the lower-cased word: the
  decomposition has a prefix morpheme exactly when some entry of the prefix list is a
  literal prefix of \<open>r\<close>, and then one, the first such entry; a suffix morpheme exactly
  when some entry of the suffix list is a suffix of what follows the prefix, and then
  one, the first such entry; a root morpheme exactly when the residual between the two is
  not empty, and then one, the residual; and no other morpheme. Prefix, residual and
  suffix make up \<open>r\<close>.
\<close>

theorem decomposeMorphemes_shape:
  "(let r = toLowerCase w;
        pre = find (\<lambda>p. prefix p r) prefixes;
        rest = drop (length (chosen pre)) r;
        suf = find (\<lambda>s. suffix s rest) suffixes;
        residual = take (length rest - length (chosen suf)) rest;
        ms = decomposeMorphemes w
    in valuesOf Prefix ms = (case pre of None \<Rightarrow> [] | Some p \<Rightarrow> [p])
     \<and> valuesOf Suffix ms = (case suf of None \<Rightarrow> [] | Some s \<Rightarrow> [s])
     \<and> valuesOf Root ms = (if residual = [] then [] else [residual])
     \<and> valuesOf OtherType ms = []
     \<and> r = chosen pre @ residual @ chosen suf)"
proof -
  define r where "r = toLowerCase w"
  define pre where "pre = find (\<lambda>p. prefix p r) prefixes"
  define rest where "rest = drop (length (chosen pre)) r"
  define suf where "suf = find (\<lambda>s. suffix s rest) suffixes"
  define residual where "residual = take (length rest - length (chosen suf)) rest"
  have r1: "r = chosen pre @ rest"
  proof (cases pre)
    case None
    then show ?thesis by (simp add: rest_def chosen_def)
  next
    case (Some p)
    then show ?thesis
      using find_prefix_split[of r prefixes p] by (simp add: rest_def chosen_def pre_def)
  qed
  have r2: "rest = residual @ chosen suf"
  proof (cases suf)
    case None
    then show ?thesis by (simp add: residual_def chosen_def)
  next
    case (Some s)
    then show ?thesis
      using find_suffix_split[of rest suffixes s] by (simp add: residual_def chosen_def suf_def)
  qed
  have ms: "decomposeMorphemes w =
      (case pre of None \<Rightarrow> []
       | Some p \<Rightarrow> [\<lparr>mtype = Prefix, mvalue = p, meaning = getPrefixMeaning p\<rparr>])
      @ (case suf of None \<Rightarrow> []
         | Some s \<Rightarrow> [\<lparr>mtype = Suffix, mvalue = s, meaning = getSuffixMeaning s\<rparr>])
      @ (if residual = [] then []
         else [\<lparr>mtype = Root, mvalue = residual, meaning = ''core meaning''\<rparr>])"
    unfolding r_def pre_def rest_def suf_def residual_def by (rule decomposeMorphemes_parts)
  have v1: "valuesOf Prefix (decomposeMorphemes w) = (case pre of None \<Rightarrow> [] | Some p \<Rightarrow> [p])"
    unfolding ms valuesOf_def by (simp split: option.splits)
  have v2: "valuesOf Suffix (decomposeMorphemes w) = (case suf of None \<Rightarrow> [] | Some s \<Rightarrow> [s])"
    unfolding ms valuesOf_def by (simp split: option.splits)
  have v3: "valuesOf Root (decomposeMorphemes w) = (if residual = [] then [] else [residual])"
    unfolding ms valuesOf_def by (simp split: option.splits)
  have v4: "valuesOf OtherType (decomposeMorphemes w) = []"
    unfolding ms valuesOf_def by (simp split: option.splits)
  have v5: "r = chosen pre @ residual @ chosen suf"
    using r1 r2 by simp
  show ?thesis
    unfolding Let_def r_def[symmetric] pre_def[symmetric] rest_def[symmetric] suf_def[symmetric]
      residual_def[symmetric]
    using v1 v2 v3 v4 v5 by blast
qed

text \<open>The decomposition of \<^verbatim>\<open>Un-do-ing\<close>: one prefix, one suffix and the root between them.\<close>

theorem decomposeMorphemes_shape_witness:
  "valuesOf Prefix (decomposeMorphemes ''Un-do-ing'') = [''un-''] \<and>
   valuesOf Suffix (decomposeMorphemes ''Un-do-ing'') = [''-ing''] \<and>
   valuesOf Root (decomposeMorphemes ''Un-do-ing'') = [''do'']"
proof -
  have a: "toLowerCase ''Un-do-ing'' = ''un-do-ing''" by code_simp
  have b: "find (\<lambda>p. prefix p ''un-do-ing'') prefixes = Some ''un-''" by code_simp
  have c: "find (\<lambda>s. suffix s ''do-ing'') suffixes = Some ''-ing''" by code_simp
  show ?thesis
    using decomposeMorphemes_shape[of "''Un-do-ing''"]
    unfolding Let_def a b by (simp add: chosen_def c)
qed

text \<open>
  The claim as stated promises exactly one root for every word, and affixes that are
  literal prefixes of the word. The word \<^verbatim>\<open>un-\<close> is all prefix: its residual is
  empty and it gets no root morpheme. No entry of the list is a literal prefix of
  \<^verbatim>\<open>UN-do\<close>, and yet the decomposition has the prefix \<^verbatim>\<open>un-\<close>, found in the
  lower-cased word.
\<close>

theorem decompose_root_counterexample:
  "valuesOf Root (decomposeMorphemes ''un-'') = [] \<and>
   decomposeMorphemes ''un-'' = [\<lparr>mtype = Prefix, mvalue = ''un-'', meaning = ''not, opposite of''\<rparr>] \<and>
   find (\<lambda>p. prefix p ''UN-do'') prefixes = None \<and>
   valuesOf Prefix (decomposeMorphemes ''UN-do'') = [''un-'']"
  by code_simp

subsection \<open>Plain-character pronunciation\<close>

lemma getAsciiPhoneme_local:
  assumes "i < length w"
  shows "getAsciiPhoneme sk (w ! i) w i = getAsciiPhoneme sk (w ! i) (drop i w) 0"
proof -
  have "(Suc i < length w) = (Suc 0 < length (drop i w))" by auto
  moreover have "Suc i < length w \<Longrightarrow> w ! Suc i = drop i w ! Suc 0"
    by simp
  ultimately show ?thesis
    unfolding getAsciiPhoneme_def by (auto simp: Let_def)
qed

lemma fold_render:
  fixes w
  defines "F \<equiv> (\<lambda>i (pronunciation, skipNext).
             let (asciiPhoneme, skipNext') = getAsciiPhoneme skipNext (w ! i) w i
             in (pronunciation @ asciiPhoneme, skipNext'))"
  shows "i \<le> length w \<Longrightarrow>
   fold F [i ..< length w] (acc, sk)
     = (acc @ fst (renderFrom sk (drop i w)), snd (renderFrom sk (drop i w)))"
proof (induction "length w - i" arbitrary: i acc sk)
  case 0
  then show ?case by simp
next
  case (Suc n)
  then have lt: "i < length w" by simp
  then have up: "[i ..< length w] = i # [Suc i ..< length w]"
    by (simp add: upt_conv_Cons)
  have dr: "drop i w = w ! i # drop (Suc i) w"
    using lt by (simp add: Cons_nth_drop_Suc)
  obtain ph sk1 where g: "getAsciiPhoneme sk (w ! i) w i = (ph, sk1)"
    by (cases "getAsciiPhoneme sk (w ! i) w i")
  have g': "getAsciiPhoneme sk (w ! i) (w ! i # drop (Suc i) w) 0 = (ph, sk1)"
    using getAsciiPhoneme_local[OF lt, of sk] g dr by simp
  have n: "n = length w - Suc i" using Suc.hyps(2) by simp
  have le: "Suc i \<le> length w" using lt by simp
  have "fold F [i ..< length w] (acc, sk) = fold F [Suc i ..< length w] (acc @ ph, sk1)"
    unfolding up by (simp add: F_def g)
  also have "\<dots> = ((acc @ ph) @ fst (renderFrom sk1 (drop (Suc i) w)),
                    snd (renderFrom sk1 (drop (Suc i) w)))"
    by (rule Suc.hyps(1)[OF n le])
  also have "\<dots> = (acc @ fst (renderFrom sk (drop i w)), snd (renderFrom sk (drop i w)))"
    unfolding dr by (simp add: g' split_beta)
  finally show ?case .
qed

lemma generateAsciiPronunciation_renderFrom:
  "generateAsciiPronunciation sk w = renderFrom sk w"
  unfolding generateAsciiPronunciation_def
  using fold_render[of 0 w "[]" sk] by simp

lemma no_single_digraph: "map_of asciiCombinations [x] = None"
  by (simp add: asciiCombinations_def)

lemma phoneme_single:
  assumes "map_of asciiCombinations
             (toLowerCaseChar c # (case cs of [] \<Rightarrow> [] | b # _ \<Rightarrow> [toLowerCaseChar b])) = None"
  shows "getAsciiPhoneme False c (c # cs) 0 = (asciiSingle c, False)"
    and "getAsciiPhoneme True c (c # cs) 0 = ([], False)"
  using assms
  by (cases cs; simp add: getAsciiPhoneme_def Let_def asciiSingle_def split: option.splits)+

lemma phoneme_digraph:
  assumes "map_of asciiCombinations [toLowerCaseChar a, toLowerCaseChar b] = Some combo"
  shows "getAsciiPhoneme sk a (a # b # cs) 0 = (combo, True)"
  using assms by (simp add: getAsciiPhoneme_def Let_def)

lemma noOverlap_tail: "noOverlap (a # cs) \<Longrightarrow> noOverlap cs"
  by (induction "a # cs" arbitrary: a cs rule: noOverlap.induct) auto

lemma render_skipped:
  assumes "isDigraph a b" "noOverlap (a # b # cs)"
  shows "renderFrom True (b # cs) = renderFrom False cs"
proof -
  have "map_of asciiCombinations
             (toLowerCaseChar b # (case cs of [] \<Rightarrow> [] | c # _ \<Rightarrow> [toLowerCaseChar c])) = None"
  proof (cases cs)
    case Nil
    then show ?thesis by (simp add: no_single_digraph)
  next
    case (Cons c rest)
    with assms have "\<not> isDigraph b c" by simp
    with Cons show ?thesis by (simp add: isDigraph_def)
  qed
  from phoneme_single(2)[OF this] show ?thesis by simp
qed

lemma renderFrom_scan:
  "noOverlap w \<Longrightarrow> renderFrom False w = (scanAsciiPronunciation w, False)"
proof (induction w rule: scanAsciiPronunciation.induct)
  case (1 a b cs)
  show ?case
  proof (cases "map_of asciiCombinations [toLowerCaseChar a, toLowerCaseChar b]")
    case None
    have t: "noOverlap (b # cs)" using "1.prems" by (rule noOverlap_tail)
    have "getAsciiPhoneme False a (a # b # cs) 0 = (asciiSingle a, False)"
      by (rule phoneme_single(1)) (simp add: None)
    then show ?thesis
      using "1.IH"(1)[OF None t] None by simp
  next
    case (Some combo)
    then have d: "isDigraph a b" by (simp add: isDigraph_def)
    have t: "noOverlap cs"
      using "1.prems" noOverlap_tail by blast
    have "renderFrom False (a # b # cs)
            = (combo @ fst (renderFrom True (b # cs)), snd (renderFrom True (b # cs)))"
      using phoneme_digraph[OF Some, of False cs]
      by (simp add: split_beta del: renderFrom.simps(2)[of True])
    then show ?thesis
      unfolding render_skipped[OF d "1.prems"]
      using "1.IH"(2)[OF Some t] Some by simp
  qed
next
  case (2 a)
  have "getAsciiPhoneme False a [a] 0 = (asciiSingle a, False)"
    by (rule phoneme_single(1)) (simp add: no_single_digraph)
  then show ?case by simp
next
  case 3
  then show ?case by simp
qed

text \<open>
  Where no two digraphs of the word overlap, the renderer of the program is the scan of
  the specification, and it leaves the skip flag unset.
\<close>

lemma ascii_without_overlap:
  "noOverlap w \<Longrightarrow> generateAsciiPronunciation False w = (scanAsciiPronunciation w, False)"
  by (simp add: generateAsciiPronunciation_renderFrom renderFrom_scan)

text \<open>
  Claim C9 at the word \<^verbatim>\<open>dinghy\<close>. The digraph \<^verbatim>\<open>ng\<close> is matched at index 2 and
  sets the skip flag. At index 3 the lookup of \<^verbatim>\<open>gh\<close> comes before the test of the
  flag, so the second character of \<^verbatim>\<open>ng\<close> starts a digraph of its own and is
  rendered again as \<^verbatim>\<open>g\<close>; the flag then swallows the \<^verbatim>\<open>h\<close>. The scan that
  consumes both characters of a matched digraph renders \<^verbatim>\<open>dinghy\<close>. The word reaches
  the renderer as it is: under the default style it is its own constructed word, and
  \<^verbatim>\<open>processWord\<close> stores the pronunciation \<^verbatim>\<open>dinggy\<close> with it.
\<close>

theorem ascii_overlap_dinghy:
  "generateAsciiPronunciation False ''dinghy'' = (''dinggy'', False) \<and>
   scanAsciiPronunciation ''dinghy'' = ''dinghy'' \<and>
   map (\<lambda>entry. (sigment (snd entry), pronunciation (snd entry)))
       (vocabulary (snd (processWord exampleEnv freshGenerator emptyLanguage ''dinghy'')))
     = [(''dinghy'', ''dinggy'')]"
  by code_simp

subsection \<open>The styles\<close>

lemma applyMorphemeBasedRules_id: "applyMorphemeBasedRules w ms st = w"
  unfolding applyMorphemeBasedRules_def
  by (induction ms) (simp_all add: transformPrefix_def transformSuffix_def transformRoot_def)

text \<open>
  Claim C5. The word \<^verbatim>\<open>computer\<close> has no affix of the lists, so its one morpheme is
  the root \<^verbatim>\<open>computer\<close> and every index lies in the root. Under consonant_shift the
  letters of the pairing table, \<^verbatim>\<open>p\<close> and \<^verbatim>\<open>t\<close>, become \<^verbatim>\<open>b\<close> and \<^verbatim>\<open>d\<close>,
  and every other letter stays: the result is the word mapped through the table
  character by character, and it is also the constructed word.
\<close>

theorem consonant_shift_computer:
  "decomposeMorphemes ''computer''
     = [\<lparr>mtype = Root, mvalue = ''computer'', meaning = ''core meaning''\<rparr>] \<and>
   applyConsonantShift ''computer'' (analyzeWord ''computer'') = ''combuder'' \<and>
   ''combuder'' = map (\<lambda>c. case map_of shiftRules c of Some d \<Rightarrow> d | None \<Rightarrow> c) ''computer'' \<and>
   transformWord r k ''computer'' (analyzeWord ''computer'') ConsonantShift = (''combuder'', k)"
proof -
  have a: "decomposeMorphemes ''computer''
     = [\<lparr>mtype = Root, mvalue = ''computer'', meaning = ''core meaning''\<rparr>]"
    by code_simp
  have b: "applyConsonantShift ''computer'' (analyzeWord ''computer'') = ''combuder''"
    by code_simp
  have c: "''combuder'' = map (\<lambda>c. case map_of shiftRules c of Some d \<Rightarrow> d | None \<Rightarrow> c) ''computer''"
    by code_simp
  have d: "toLowerCase ''computer'' = ''computer''"
    by code_simp
  have e: "applyPhoneticConsistency ''combuder'' = ''combuder''"
    by code_simp
  have f: "transformWord r k ''computer'' (analyzeWord ''computer'') ConsonantShift = (''combuder'', k)"
    unfolding transformWord_def applySystematicTransformations_def d
    by (simp add: b e applyMorphemeBasedRules_id)
  show ?thesis using a b c f by blast
qed

lemma fold_append_concat: "fold (\<lambda>c res. res @ g c) w acc = acc @ concat (map g w)"
  by (induction w arbitrary: acc) simp_all

lemma mild_lookup:
  "(case map_of mildShifts [c] of Some x \<Rightarrow> x | None \<Rightarrow> [c])
     = (if c = CHR ''c'' then ''k'' else if c = CHR ''k'' then ''c''
        else if c = CHR ''f'' then ''ph'' else [c])"
  by (simp add: mildShifts_def)

lemma applyMildConsonantShift_chars:
  "applyMildConsonantShift w =
     concat (map (\<lambda>c. if c = CHR ''c'' then ''k'' else if c = CHR ''k'' then ''c''
                       else if c = CHR ''f'' then ''ph'' else [c]) w)"
  unfolding applyMildConsonantShift_def fold_append_concat mild_lookup by simp










subsection \<open>Lower case\<close>

lemma toLowerCaseChar_not_upper: "\<not> isUpperCaseChar (toLowerCaseChar c)"
  unfolding toLowerCaseChar_def isUpperCaseChar_def Let_def
  by (auto simp: of_char_of [where ?'a = nat])

lemma toLowerCaseChar_idem: "toLowerCaseChar (toLowerCaseChar c) = toLowerCaseChar c"
  using toLowerCaseChar_not_upper[of c] by (simp add: toLowerCaseChar_def[of "toLowerCaseChar c"])

lemma toLowerCase_idem: "toLowerCase (toLowerCase w) = toLowerCase w"
  by (simp add: toLowerCase_def toLowerCaseChar_idem)

lemma noUpperCase_toLowerCase: "noUpperCase (toLowerCase w)"
  by (auto simp: noUpperCase_def toLowerCase_def toLowerCaseChar_not_upper)

lemma noUpperCase_append: "noUpperCase (a @ b) = (noUpperCase a \<and> noUpperCase b)"
  by (auto simp: noUpperCase_def)

lemma noUpperCase_subset: "set a \<subseteq> set b \<Longrightarrow> noUpperCase b \<Longrightarrow> noUpperCase a"
  by (auto simp: noUpperCase_def)

lemma fold_preserves:
  assumes "P acc"
    and "\<And>x acc. x \<in> set xs \<Longrightarrow> P acc \<Longrightarrow> P (f x acc)"
  shows "P (fold f xs acc)"
  using assms by (induction xs arbitrary: acc) simp_all

lemma pick_in_set: "xs \<noteq> [] \<Longrightarrow> pick r k xs \<in> set xs"
  by (simp add: pick_def)

lemma shiftRules_lower: "map_of shiftRules c = Some d \<Longrightarrow> \<not> isUpperCaseChar d"
  by (auto simp: shiftRules_def isUpperCaseChar_def split: if_splits)

lemma noUpperCase_applyConsonantShift:
  assumes "noUpperCase w"
  shows "noUpperCase (applyConsonantShift w e)"
proof -
  have "\<not> isUpperCaseChar (w ! i)" if "i < length w" for i
    using assms that by (simp add: noUpperCase_def)
  then show ?thesis
    unfolding applyConsonantShift_def noUpperCase_def
    by (auto simp: Let_def shiftRules_lower split: option.splits)
qed

lemma harmony_lower: "noUpperCase harmonyFront" "noUpperCase harmonyBack"
  by (simp_all add: noUpperCase_def harmonyFront_def harmonyBack_def isUpperCaseChar_def)

lemma noUpperCase_pick: "xs \<noteq> [] \<Longrightarrow> noUpperCase xs \<Longrightarrow> \<not> isUpperCaseChar (pick r k xs)"
  using pick_in_set[of xs r k] by (auto simp: noUpperCase_def)

lemma noUpperCase_applyVowelHarmony:
  assumes "noUpperCase w"
  shows "noUpperCase (fst (applyVowelHarmony r k w))"
proof -
  have f: "\<not> isUpperCaseChar (pick r j harmonyFront)" for j
    using noUpperCase_pick[of harmonyFront r j] harmony_lower by (simp add: harmonyFront_def)
  have b: "\<not> isUpperCaseChar (pick r j harmonyBack)" for j
    using noUpperCase_pick[of harmonyBack r j] harmony_lower by (simp add: harmonyBack_def)
  show ?thesis
    unfolding applyVowelHarmony_def Let_def
    apply (rule fold_preserves[where P = "\<lambda>s. noUpperCase (fst s)"])
     apply (simp add: noUpperCase_def)
    subgoal for x s
      using assms f b by (cases s) (auto simp: noUpperCase_append noUpperCase_def)
    done
qed

lemma set_substring: "set (substring s a b) \<subseteq> set s"
  unfolding substring_def
  by (auto dest: in_set_takeD in_set_dropD)

lemma set_addRootEmphasis: "set (addRootEmphasis m) \<subseteq> set m"
proof (cases "length m > 3")
  case True
  then have "m ! (length m div 2) \<in> set m" by (intro nth_mem) simp
  then show ?thesis
    using set_substring[of m 0 "length m div 2"]
    by (auto simp: addRootEmphasis_def Let_def substringFrom_def dest: in_set_dropD)
next
  case False
  then show ?thesis by (simp add: addRootEmphasis_def)
qed

lemma set_emphasizeMorpheme: "set (emphasizeMorpheme t m) \<subseteq> set t"
  using set_addRootEmphasis[of t] by (simp add: emphasizeMorpheme_def)

lemma noUpperCase_applyMorphemeEmphasis:
  assumes "noUpperCase w"
  shows "noUpperCase (applyMorphemeEmphasis w e)"
proof (cases "morphemes e")
  case None
  with assms show ?thesis by (simp add: applyMorphemeEmphasis_def)
next
  case (Some ms)
  have step: "noUpperCase (fst ((\<lambda>m (result, offset).
                       if mtype m = Root
                       then (let start = indexOfFrom result (mvalue m) offset
                             in if start \<noteq> -1
                                then (let s = nat start;
                                          n = length (mvalue m);
                                          morphemeText = substring result s (s + n);
                                          emphasized = emphasizeMorpheme morphemeText m
                                      in (substring result 0 s @ emphasized
                                            @ substringFrom result (s + n),
                                          s + length emphasized))
                                else (result, offset))
                       else (result, offset)) m st))"
    if "noUpperCase (fst st)" for m st
  proof -
    obtain res off where st: "st = (res, off)" by (cases st)
    with that have r: "noUpperCase res" by simp
    have a: "noUpperCase (substring res x y)" for x y
      using noUpperCase_subset[OF set_substring r] .
    have b: "noUpperCase (emphasizeMorpheme (substring res x y) m)" for x y
      using noUpperCase_subset[OF set_emphasizeMorpheme a] .
    have c: "noUpperCase (substringFrom res x)" for x
      using r by (auto simp: noUpperCase_def substringFrom_def dest: in_set_dropD)
    show ?thesis
      unfolding st by (simp add: Let_def noUpperCase_append a b c r)
  qed
  show ?thesis
    unfolding applyMorphemeEmphasis_def Some option.case
    by (rule fold_preserves[where P = "\<lambda>s. noUpperCase (fst s)"])
       (use assms step in auto)
qed

lemma replaceAllLit_same_aux: "rep = pat \<Longrightarrow> replaceAllLit pat rep s = s"
proof (induction pat rep s rule: replaceAllLit.induct)
  case (1 pat rep)
  then show ?case by simp
next
  case (2 pat rep c cs)
  show ?case
  proof (cases "pat \<noteq> [] \<and> startsWith (c # cs) pat")
    case True
    then have "take (length pat) (c # cs) = pat" by (simp add: startsWith_def)
    then have "pat @ drop (length pat) (c # cs) = c # cs"
      by (metis append_take_drop_id)
    with True 2 show ?thesis by simp
  next
    case False
    with 2 show ?thesis by auto
  qed
qed

lemma replaceAllLit_same: "replaceAllLit pat pat s = s"
  by (rule replaceAllLit_same_aux) simp

lemma handleConsonantClusters_id: "handleConsonantClusters w = w"
  unfolding handleConsonantClusters_def consonantClusters_def
  by (simp add: replaceAllLit_same)

lemma applySyllableRules_id: "applySyllableRules s = s"
  by (induction s rule: applySyllableRules.induct) simp_all

lemma set_replaceRuns: "set (replaceRuns n keep s) \<subseteq> set s"
proof (induction n keep s rule: replaceRuns.induct)
  case (1 n keep)
  then show ?case by simp
next
  case (2 n keep c cs)
  show ?case
  proof (cases "\<not> isLineTerminator c \<and> n \<le> Suc (length (takeWhile (\<lambda>x. x = c) cs))")
    case True
    have "set (replicate keep c) \<subseteq> {c}" by auto
    moreover have "set (dropWhile (\<lambda>x. x = c) cs) \<subseteq> set cs"
      by (auto dest: set_dropWhileD)
    ultimately show ?thesis using True 2 by auto
  next
    case False
    with 2 show ?thesis by auto
  qed
qed

lemma applyPhoneticLogic_runs: "applyPhoneticLogic w e = replaceRuns 3 2 w"
  by (simp add: applyPhoneticLogic_def maintainPhoneticIntegrity_def
      handleConsonantClusters_id applySyllableRules_id)

lemma set_collapseLeading: "set (collapseLeading w) \<subseteq> set w"
  by (cases w) (auto simp: collapseLeading_def dest: set_dropWhileD)

lemma set_collapseTrailing: "set (collapseTrailing w) \<subseteq> set w"
  by (induction w) auto

lemma set_applyPhoneticConsistency: "set (applyPhoneticConsistency w) \<subseteq> set w"
  unfolding applyPhoneticConsistency_def
  using set_collapseTrailing[of "collapseLeading (replaceRuns 4 2 w)"]
    set_collapseLeading[of "replaceRuns 4 2 w"] set_replaceRuns[of 4 2 w]
  by blast

lemma noUpperCase_concat_map:
  "(\<And>c. c \<in> set w \<Longrightarrow> noUpperCase (g c)) \<Longrightarrow> noUpperCase (concat (map g w))"
  by (auto simp: noUpperCase_def)

lemma noUpperCase_applyMildConsonantShift:
  assumes "noUpperCase w"
  shows "noUpperCase (applyMildConsonantShift w)"
  unfolding applyMildConsonantShift_chars
proof (rule noUpperCase_concat_map)
  fix c assume "c \<in> set w"
  with assms have "\<not> isUpperCaseChar c" by (simp add: noUpperCase_def)
  then show "noUpperCase (if c = CHR ''c'' then ''k'' else if c = CHR ''k'' then ''c''
                          else if c = CHR ''f'' then ''ph'' else [c])"
    by (simp add: noUpperCase_def isUpperCaseChar_def)
qed

lemma vowelVariants_lower:
  "map_of vowelVariants c = Some vs \<Longrightarrow> vs \<noteq> [] \<and> (\<forall>v \<in> set vs. noUpperCase v)"
  by (auto simp: vowelVariants_def noUpperCase_def isUpperCaseChar_def split: if_splits)

lemma noUpperCase_applyVowelVariation:
  assumes "noUpperCase w"
  shows "noUpperCase (fst (applyVowelVariation r k w))"
  unfolding applyVowelVariation_def
  apply (rule fold_preserves[where P = "\<lambda>s. noUpperCase (fst s)"])
   apply (simp add: noUpperCase_def)
  subgoal for x s
  proof (cases s)
    case (Pair res j)
    assume x: "x \<in> set w" and s: "noUpperCase (fst s)"
    from x assms have nx: "noUpperCase [x]" by (simp add: noUpperCase_def)
    show ?thesis
    proof (cases "map_of vowelVariants x")
      case None
      with Pair s nx show ?thesis by (simp add: noUpperCase_append)
    next
      case (Some vs)
      from vowelVariants_lower[OF Some] have "noUpperCase (pick r j vs)"
        using pick_in_set[of vs r j] by auto
      with Pair s Some show ?thesis by (simp add: noUpperCase_append)
    qed
  qed
  done

lemma noUpperCase_applyDefaultTransformation:
  assumes "noUpperCase w"
  shows "noUpperCase (fst (applyDefaultTransformation r k w e))"
  unfolding applyDefaultTransformation_def Let_def
  using assms noUpperCase_applyMildConsonantShift[OF assms]
    noUpperCase_applyVowelVariation[of w r k]
    noUpperCase_applyVowelVariation[of "applyMildConsonantShift w" r k]
  by auto

lemma noUpperCase_applySystematicTransformations:
  assumes "noUpperCase w"
  shows "noUpperCase (fst (applySystematicTransformations r k w e st))"
proof (cases st)
  case ConsonantShift
  then show ?thesis
    by (simp add: applySystematicTransformations_def noUpperCase_applyConsonantShift assms)
next
  case VowelHarmony
  then show ?thesis
    by (simp add: applySystematicTransformations_def noUpperCase_applyVowelHarmony assms)
next
  case MorphemeEmphasis
  then show ?thesis
    by (simp add: applySystematicTransformations_def noUpperCase_applyMorphemeEmphasis assms)
next
  case PhoneticLogic
  then show ?thesis
    using noUpperCase_subset[OF set_replaceRuns assms, of 3 2]
    by (simp add: applySystematicTransformations_def applyPhoneticLogic_runs)
next
  case DefaultStyle
  then show ?thesis
    by (simp add: applySystematicTransformations_def noUpperCase_applyDefaultTransformation assms)
qed

lemma fst_transformWord:
  "fst (transformWord r k w e st)
     = applyPhoneticConsistency (fst (applySystematicTransformations r k (toLowerCase w) e st))"
  unfolding transformWord_def Let_def
  by (simp add: applyMorphemeBasedRules_id split: prod.splits)

lemma noUpperCase_transformWord: "noUpperCase (fst (transformWord r k w e st))"
  unfolding fst_transformWord
  using noUpperCase_subset[OF set_applyPhoneticConsistency
      noUpperCase_applySystematicTransformations[OF noUpperCase_toLowerCase]] .

lemma transformWord_lower: "transformWord r k (toLowerCase w) e st = transformWord r k w e st"
  by (simp add: transformWord_def toLowerCase_idem)

lemma decomposeMorphemes_lower: "decomposeMorphemes (toLowerCase w) = decomposeMorphemes w"
  by (simp add: decomposeMorphemes_def toLowerCase_idem)

lemma analyzeWord_lower_fields:
  "morphemes (analyzeWord (toLowerCase w)) = morphemes (analyzeWord w)"
  "semanticComponents (analyzeWord (toLowerCase w)) = semanticComponents (analyzeWord w)"
  by (simp_all add: analyzeWord_def extractSemanticComponents_def decomposeMorphemes_lower)

lemma applyConsonantShift_fields:
  assumes "morphemes e = morphemes e'"
  shows "applyConsonantShift v e = applyConsonantShift v e'"
proof -
  have eq: "isInRootMorpheme p v e = isInRootMorpheme p v e'" for p
    using assms by (simp add: isInRootMorpheme_def)
  show ?thesis
    unfolding applyConsonantShift_def eq ..
qed

lemma transformWord_fields:
  assumes "morphemes e = morphemes e'" "semanticComponents e = semanticComponents e'"
  shows "transformWord r k w e st = transformWord r k w e' st"
proof -
  have "applySystematicTransformations r k v e st = applySystematicTransformations r k v e' st" for v
    using assms applyConsonantShift_fields[OF assms(1), of v]
    by (cases st)
       (simp_all add: applySystematicTransformations_def applyMorphemeEmphasis_def
          applyPhoneticLogic_def applyDefaultTransformation_def
          calculateOverallSemanticWeight_def)
  then show ?thesis
    using assms by (simp add: transformWord_def)
qed

text \<open>
  Claim C10. For every word, every analysis, every style and every sequence of random
  draws, \<^verbatim>\<open>transformWord\<close> gives the word and its lower-cased form the same
  constructed word (and draws as often). The same holds when each of the two is
  transformed with its own analysis, as \<^verbatim>\<open>processWord\<close> does. The constructed word
  has no capital letter: no \<^verbatim>\<open>A-Z\<close> and no capital letter of the range
  \<^verbatim>\<open>U+00C0-U+00DE\<close>.
\<close>

theorem transformWord_lowercase:
  "transformWord r k w e st = transformWord r k (toLowerCase w) e st \<and>
   transformWord r k w (analyzeWord w) st
     = transformWord r k (toLowerCase w) (analyzeWord (toLowerCase w)) st \<and>
   noUpperCase (fst (transformWord r k w e st))"
proof -
  have "transformWord r k (toLowerCase w) (analyzeWord (toLowerCase w)) st
          = transformWord r k (toLowerCase w) (analyzeWord w) st"
    by (rule transformWord_fields) (rule analyzeWord_lower_fields)+
  then show ?thesis
    by (simp add: transformWord_lower noUpperCase_transformWord)
qed

text \<open>The word \<^verbatim>\<open>ComPuTer\<close> and its lower-cased form under consonant_shift.\<close>

theorem transformWord_lowercase_witness:
  "transformWord alwaysSecond 0 ''ComPuTer'' (analyzeWord ''ComPuTer'') ConsonantShift
     = (''combuder'', 0) \<and>
   transformWord alwaysSecond 0 ''computer'' (analyzeWord ''computer'') ConsonantShift
     = (''combuder'', 0) \<and>
   noUpperCase ''combuder''"
proof -
  have a: "transformWord alwaysSecond 0 ''computer'' (analyzeWord ''computer'') ConsonantShift
     = (''combuder'', 0)"
    by code_simp
  have b: "toLowerCase ''ComPuTer'' = ''computer''"
    by code_simp
  note t = transformWord_lowercase[of alwaysSecond 0 "''ComPuTer''" "analyzeWord ''ComPuTer''"
      ConsonantShift]
  from t have c: "transformWord alwaysSecond 0 ''ComPuTer'' (analyzeWord ''ComPuTer'')
      ConsonantShift = (''combuder'', 0)"
    unfolding b a by blast
  from t have "noUpperCase (fst (transformWord alwaysSecond 0 ''ComPuTer''
      (analyzeWord ''ComPuTer'') ConsonantShift))"
    by blast
  then have "noUpperCase ''combuder''"
    unfolding c by simp
  with a c show ?thesis by blast
qed

subsection \<open>Adding words\<close>















subsection \<open>Reconstruction\<close>







subsection \<open>Consistency score\<close>

lemma histogram_snoc: "histogram (ts @ [s]) = bumpCount s (histogram ts)"
  by (simp add: histogram_def)

lemma histogram_props:
  "distinct (map fst (histogram ts)) \<and>
   (\<forall>t. map_of (histogram ts) t
          = (if t \<in> set ts then Some (count_list ts t) else None))"
proof (induction ts rule: rev_induct)
  case Nil
  then show ?case by (simp add: histogram_def)
next
  case (snoc s ts)
  then have d: "distinct (map fst (histogram ts))"
    and m: "\<And>t. map_of (histogram ts) t
          = (if t \<in> set ts then Some (count_list ts t) else None)"
    by blast+
  have d': "distinct (map fst (histogram (ts @ [s])))"
    unfolding histogram_snoc bumpCount_def using d by (rule distinct_update)
  have cnt: "(case map_of (histogram ts) s of Some n \<Rightarrow> n | None \<Rightarrow> 0) = count_list ts s"
    by (simp add: m count_list_0_iff)
  have m': "map_of (histogram (ts @ [s])) t
          = (if t \<in> set (ts @ [s]) then Some (count_list (ts @ [s]) t) else None)" for t
    unfolding histogram_snoc bumpCount_def cnt
    by (simp add: update_conv' m)
  from d' m' show ?case by blast
qed

lemma histogram_keys: "set (map fst (histogram ts)) = set ts"
proof -
  have "(t \<in> fst ` set (histogram ts)) = (t \<in> set ts)" for t
  proof -
    have "(map_of (histogram ts) t = None) = (t \<notin> set ts)"
      using histogram_props[of ts] by simp
    then show ?thesis
      using map_of_eq_None_iff[of "histogram ts" t] by argo
  qed
  then show ?thesis by auto
qed

lemma histogram_counts:
  "map snd (histogram ts) = map (count_list ts) (map fst (histogram ts))"
proof -
  have "snd p = count_list ts (fst p)" if "p \<in> set (histogram ts)" for p
  proof -
    have d: "distinct (map fst (histogram ts))"
      using histogram_props[of ts] by blast
    from that have "(fst p, snd p) \<in> set (histogram ts)" by simp
    then have "map_of (histogram ts) (fst p) = Some (snd p)"
      using map_of_eq_Some_iff[OF d, of "fst p" "snd p"] by blast
    moreover have "map_of (histogram ts) (fst p)
          = (if fst p \<in> set ts then Some (count_list ts (fst p)) else None)"
      using histogram_props[of ts] by blast
    ultimately show ?thesis
      by (cases "fst p \<in> set ts") simp_all
  qed
  then show ?thesis by simp
qed

lemma fold_plus_sum_list: "fold (\<lambda>b a. a + b) xs (n::nat) = n + sum_list xs"
  by (induction xs arbitrary: n) simp_all

lemma fold_max_Max: "fold max xs (a::nat) = Max (insert a (set xs))"
proof -
  have "Max (set (a # xs)) = fold max xs a" by (rule Max.set_eq_fold)
  then show ?thesis by simp
qed

lemma histogram_total: "fold (\<lambda>b a. a + b) (map snd (histogram ts)) 0 = length ts"
proof -
  have d: "distinct (map fst (histogram ts))"
    using histogram_props[of ts] by blast
  have "sum_list (map snd (histogram ts))
          = sum_list (map (count_list ts) (map fst (histogram ts)))"
    by (simp only: histogram_counts[symmetric])
  also have "\<dots> = sum (count_list ts) (set (map fst (histogram ts)))"
    using d by (rule sum_list_distinct_conv_sum_set)
  also have "\<dots> = sum (count_list ts) (set ts)"
    by (simp only: histogram_keys)
  also have "\<dots> = length ts"
    by (rule sum_count_set) simp_all
  finally show ?thesis by (simp add: fold_plus_sum_list)
qed

lemma histogram_max:
  assumes "ts \<noteq> []"
  shows "fold max (map snd (histogram ts)) 0 = mostFrequentCount ts"
proof -
  have "set (map snd (histogram ts)) = set (map (count_list ts) (map fst (histogram ts)))"
    by (simp only: histogram_counts[symmetric])
  also have "\<dots> = count_list ts ` set (map fst (histogram ts))"
    by (rule set_map)
  also have "\<dots> = count_list ts ` set ts"
    by (simp only: histogram_keys)
  finally have s: "set (map snd (histogram ts)) = count_list ts ` set ts" .
  have ne: "count_list ts ` set ts \<noteq> {}" using assms by simp
  have "Max (insert 0 (count_list ts ` set ts)) = Max (count_list ts ` set ts)"
    using ne by (simp add: Max_insert)
  then show ?thesis
    unfolding fold_max_Max s mostFrequentCount_def .
qed

lemma mostFrequentCount_le:
  assumes "ts \<noteq> []"
  shows "mostFrequentCount ts \<le> length ts"
  unfolding mostFrequentCount_def
  using assms by (simp add: count_le_length)

lemma rowPercentage_histogram:
  assumes "ts \<noteq> []"
  shows "rowPercentage (c, histogram ts)
           = of_nat (mostFrequentCount ts) / of_nat (length ts) * 100"
  by (simp add: rowPercentage_def histogram_total histogram_max[OF assms])

lemma recordTransform_update:
  "recordTransform key s tbl
     = AList.update key (bumpCount s (case map_of tbl key of None \<Rightarrow> [] | Some t \<Rightarrow> t)) tbl"
proof (cases "map_of tbl key")
  case None
  then show ?thesis
    by (simp add: recordTransform_def Let_def update_conv' bumpCount_def)
next
  case (Some t)
  then show ?thesis
    by (simp add: recordTransform_def Let_def bumpCount_def)
qed

lemma targetsOf_snoc:
  "targetsOf c (obs @ [ob]) = targetsOf c obs @ (if fst ob = c then [snd ob] else [])"
  by (simp add: targetsOf_def)

lemma targetsOf_empty: "(targetsOf c obs = []) = (c \<notin> fst ` set obs)"
  by (auto simp: targetsOf_def filter_empty_conv image_iff)

lemma tableOf_snoc: "tableOf P (obs @ [ob]) = recordIf P ob (tableOf P obs)"
  by (simp add: tableOf_def)

lemma tableOf_props:
  "distinct (map fst (tableOf P obs)) \<and>
   (\<forall>c. map_of (tableOf P obs) c
          = (if P c \<and> targetsOf c obs \<noteq> [] then Some (histogram (targetsOf c obs)) else None))"
proof (induction obs rule: rev_induct)
  case Nil
  then show ?case by (simp add: tableOf_def targetsOf_def)
next
  case (snoc ob obs)
  define T where "T = tableOf P obs"
  from snoc have d: "distinct (map fst T)"
    and m: "\<And>c. map_of T c
          = (if P c \<and> targetsOf c obs \<noteq> [] then Some (histogram (targetsOf c obs)) else None)"
    unfolding T_def by blast+
  show ?case
  proof (cases "P (fst ob)")
    case False
    then have same: "tableOf P (obs @ [ob]) = T"
      by (simp add: tableOf_snoc recordIf_def T_def)
    have "targetsOf c (obs @ [ob]) = targetsOf c obs" if "P c" for c
      using that False by (auto simp: targetsOf_snoc)
    then show ?thesis
      unfolding same using d m by auto
  next
    case True
    define k where "k = fst ob"
    define s where "s = snd ob"
    have old: "(case map_of T k of None \<Rightarrow> [] | Some t \<Rightarrow> t) = histogram (targetsOf k obs)"
      using True by (simp add: m k_def histogram_def)
    have new: "tableOf P (obs @ [ob])
                 = AList.update k (histogram (targetsOf k obs @ [s])) T"
      using True
      by (simp add: tableOf_snoc recordIf_def T_def[symmetric] recordTransform_update
          k_def[symmetric] s_def[symmetric] old histogram_snoc)
    have d': "distinct (map fst (tableOf P (obs @ [ob])))"
      unfolding new using d by (rule distinct_update)
    have m': "map_of (tableOf P (obs @ [ob])) c
          = (if P c \<and> targetsOf c (obs @ [ob]) \<noteq> []
             then Some (histogram (targetsOf c (obs @ [ob]))) else None)" for c
    proof (cases "c = k")
      case True
      then show ?thesis
        using \<open>P (fst ob)\<close>
        by (simp add: new update_conv' targetsOf_snoc k_def s_def)
    next
      case False
      then show ?thesis
        by (simp add: new update_conv' targetsOf_snoc k_def m)
    qed
    from d' m' show ?thesis by blast
  qed
qed

lemma tableOf_keys: "set (map fst (tableOf P obs)) = {c \<in> fst ` set obs. P c}"
proof -
  have "(c \<in> fst ` set (tableOf P obs)) = (c \<in> {c \<in> fst ` set obs. P c})" for c
  proof -
    have "(map_of (tableOf P obs) c = None) = (\<not> (P c \<and> targetsOf c obs \<noteq> []))"
      using tableOf_props[of P obs] by simp
    then show ?thesis
      using map_of_eq_None_iff[of "tableOf P obs" c] targetsOf_empty[of c obs] by auto
  qed
  then show ?thesis by auto
qed

lemma tableOf_rows:
  "map rowPercentage (tableOf P obs) = map (\<lambda>c. percentage c obs) (map fst (tableOf P obs))"
proof -
  have "rowPercentage row = percentage (fst row) obs" if "row \<in> set (tableOf P obs)" for row
  proof -
    have d: "distinct (map fst (tableOf P obs))"
      using tableOf_props[of P obs] by blast
    from that have "(fst row, snd row) \<in> set (tableOf P obs)" by simp
    then have "map_of (tableOf P obs) (fst row) = Some (snd row)"
      using map_of_eq_Some_iff[OF d, of "fst row" "snd row"] by blast
    moreover have "map_of (tableOf P obs) (fst row)
          = (if P (fst row) \<and> targetsOf (fst row) obs \<noteq> []
             then Some (histogram (targetsOf (fst row) obs)) else None)"
      using tableOf_props[of P obs] by blast
    ultimately have ne: "targetsOf (fst row) obs \<noteq> []"
      and h: "snd row = histogram (targetsOf (fst row) obs)"
      by (auto split: if_splits)
    have "rowPercentage row = rowPercentage (fst row, histogram (targetsOf (fst row) obs))"
      using h by (metis prod.collapse)
    then show ?thesis
      by (simp only: rowPercentage_histogram[OF ne] percentage_def)
  qed
  then show ?thesis by simp
qed

lemma scaled_unit: "(0::rat) \<le> q \<Longrightarrow> q \<le> 1 \<Longrightarrow> 0 \<le> q * 100 \<and> q * 100 \<le> 100"
  by simp

lemma percentage_bounds:
  assumes "targetsOf c obs \<noteq> []"
  shows "0 \<le> percentage c obs \<and> percentage c obs \<le> 100"
proof -
  have le: "mostFrequentCount (targetsOf c obs) \<le> length (targetsOf c obs)"
    using assms by (rule mostFrequentCount_le)
  have pos: "(0::rat) < of_nat (length (targetsOf c obs))" using assms by simp
  have a: "(of_nat (mostFrequentCount (targetsOf c obs)) :: rat)
          / of_nat (length (targetsOf c obs)) \<le> 1"
    using le pos by (simp add: divide_le_eq)
  have b: "(0::rat) \<le> of_nat (mostFrequentCount (targetsOf c obs))
          / of_nat (length (targetsOf c obs))"
    by simp
  show ?thesis
    unfolding percentage_def using b a by (rule scaled_unit)
qed

lemma analyzeSteps_vowels:
  "vowelTransformations
     (fold (\<lambda>i p.
             let englishChar = toLowerCaseChar (eng ! i);
                 sigmentChar = (if i < length sg
                                then [toLowerCaseChar (sg ! i)] else []);
                 p1 = (if englishChar \<in> set ''aeiou''
                       then p\<lparr>vowelTransformations :=
                                recordTransform englishChar sigmentChar (vowelTransformations p)\<rparr>
                       else p)
             in if englishChar \<in> set ''bcdfghjklmnpqrstvwxyz''
                then p1\<lparr>consonantShifts :=
                          recordTransform englishChar sigmentChar (consonantShifts p1)\<rparr>
                else p1) idx p)
   = fold (recordIf isSourceVowel)
       (map (\<lambda>i. (toLowerCaseChar (eng ! i),
                  if i < length sg then [toLowerCaseChar (sg ! i)] else [])) idx)
       (vowelTransformations p)"
proof (induction idx arbitrary: p)
  case Nil
  then show ?case by simp
next
  case (Cons i idx)
  show ?case
    unfolding fold_Cons list.map comp_apply Cons.IH
    by (simp add: Let_def recordIf_def isSourceVowel_def)
qed

lemma analyzeSteps_consonants:
  "consonantShifts
     (fold (\<lambda>i p.
             let englishChar = toLowerCaseChar (eng ! i);
                 sigmentChar = (if i < length sg
                                then [toLowerCaseChar (sg ! i)] else []);
                 p1 = (if englishChar \<in> set ''aeiou''
                       then p\<lparr>vowelTransformations :=
                                recordTransform englishChar sigmentChar (vowelTransformations p)\<rparr>
                       else p)
             in if englishChar \<in> set ''bcdfghjklmnpqrstvwxyz''
                then p1\<lparr>consonantShifts :=
                          recordTransform englishChar sigmentChar (consonantShifts p1)\<rparr>
                else p1) idx p)
   = fold (recordIf isSourceConsonant)
       (map (\<lambda>i. (toLowerCaseChar (eng ! i),
                  if i < length sg then [toLowerCaseChar (sg ! i)] else [])) idx)
       (consonantShifts p)"
proof (induction idx arbitrary: p)
  case Nil
  then show ?case by simp
next
  case (Cons i idx)
  show ?case
    unfolding fold_Cons list.map comp_apply Cons.IH
    by (simp add: Let_def recordIf_def isSourceConsonant_def)
qed

lemma analyzeEntry_tables:
  "vowelTransformations (analyzeEntry eng entry p)
     = fold (recordIf isSourceVowel) (entryObservations eng (sigment entry))
         (vowelTransformations p)"
  "consonantShifts (analyzeEntry eng entry p)
     = fold (recordIf isSourceConsonant) (entryObservations eng (sigment entry))
         (consonantShifts p)"
  unfolding analyzeEntry_def entryObservations_def
  by (rule analyzeSteps_vowels, rule analyzeSteps_consonants)

lemma analyzeEntries_tables:
  "vowelTransformations (fold (\<lambda>(eng, entry) p. analyzeEntry eng entry p) entries p)
     = fold (recordIf isSourceVowel) (observations entries) (vowelTransformations p) \<and>
   consonantShifts (fold (\<lambda>(eng, entry) p. analyzeEntry eng entry p) entries p)
     = fold (recordIf isSourceConsonant) (observations entries) (consonantShifts p)"
proof (induction entries arbitrary: p)
  case Nil
  then show ?case by (simp add: observations_def)
next
  case (Cons en entries)
  obtain eng entry where en: "en = (eng, entry)" by (cases en)
  have obs: "observations (en # entries)
               = entryObservations eng (sigment entry) @ observations entries"
    by (simp add: observations_def en)
  show ?case
    unfolding obs fold_append comp_apply
    using Cons.IH[of "analyzeEntry eng entry p"]
    by (simp add: en analyzeEntry_tables)
qed

lemma analyzePatternTables_tables:
  "vowelTransformations (analyzePatternTables entries)
     = tableOf isSourceVowel (observations entries)"
  "consonantShifts (analyzePatternTables entries)
     = tableOf isSourceConsonant (observations entries)"
  unfolding analyzePatternTables_def tableOf_def
  using analyzeEntries_tables[of entries "\<lparr>vowelTransformations = [], consonantShifts = []\<rparr>"]
  by simp_all

lemma fold_scoreRow:
  "fold scoreRow rows acc
     = (fst acc + sum_list (map rowPercentage rows), snd acc + length rows)"
proof (induction rows arbitrary: acc)
  case Nil
  then show ?case by simp
next
  case (Cons row rows)
  have "scoreRow row acc = (fst acc + rowPercentage row, Suc (snd acc))"
    by (simp add: scoreRow_def rowPercentage_def Let_def)
  then show ?case
    unfolding fold_Cons comp_apply Cons.IH by (simp add: add.assoc)
qed

lemma calculateConsistencyScore_rows:
  "calculateConsistencyScore p
     = (let rows = vowelTransformations p @ consonantShifts p
        in if rows = [] then 0
           else sum_list (map rowPercentage rows) / of_nat (length rows))"
  unfolding calculateConsistencyScore_def Let_def fold_scoreRow
  by (auto simp: add.assoc)

lemma table_sum:
  "sum_list (map rowPercentage (tableOf P obs))
     = (\<Sum>c \<in> {c \<in> fst ` set obs. P c}. percentage c obs)"
proof -
  have d: "distinct (map fst (tableOf P obs))"
    using tableOf_props[of P obs] by blast
  have "sum_list (map rowPercentage (tableOf P obs))
          = sum_list (map (\<lambda>c. percentage c obs) (map fst (tableOf P obs)))"
    by (simp only: tableOf_rows)
  also have "\<dots> = sum (\<lambda>c. percentage c obs) (set (map fst (tableOf P obs)))"
    using d by (rule sum_list_distinct_conv_sum_set)
  finally show ?thesis by (simp only: tableOf_keys)
qed

lemma table_length: "length (tableOf P obs) = card {c \<in> fst ` set obs. P c}"
proof -
  have d: "distinct (map fst (tableOf P obs))"
    using tableOf_props[of P obs] by blast
  have "length (tableOf P obs) = length (map fst (tableOf P obs))" by simp
  also have "\<dots> = card (set (map fst (tableOf P obs)))"
    using d by (simp only: distinct_card)
  finally show ?thesis by (simp only: tableOf_keys)
qed

lemma vowel_consonant_disjoint: "\<not> (isSourceVowel c \<and> isSourceConsonant c)"
  by (auto simp: isSourceVowel_def isSourceConsonant_def)

lemma observedChars_split:
  "observedChars obs = {c \<in> fst ` set obs. isSourceVowel c} \<union> {c \<in> fst ` set obs. isSourceConsonant c}"
  "{c \<in> fst ` set obs. isSourceVowel c} \<inter> {c \<in> fst ` set obs. isSourceConsonant c} = {}"
  using vowel_consonant_disjoint by (auto simp: observedChars_def)

lemma score_is_mean:
  "calculateConsistencyScore (analyzePatternTables entries) = meanConsistency entries"
proof -
  define obs where "obs = observations entries"
  define A where "A = {c \<in> fst ` set obs. isSourceVowel c}"
  define B where "B = {c \<in> fst ` set obs. isSourceConsonant c}"
  define Tv where "Tv = tableOf isSourceVowel obs"
  define Tc where "Tc = tableOf isSourceConsonant obs"
  have fin: "finite A" "finite B" by (simp_all add: A_def B_def)
  have un: "observedChars obs = A \<union> B" and dj: "A \<inter> B = {}"
    unfolding A_def B_def by (rule observedChars_split)+
  have len: "length (Tv @ Tc) = card (observedChars obs)"
    unfolding un using fin dj
    by (simp add: Tv_def Tc_def table_length A_def[symmetric] B_def[symmetric] card_Un_disjoint)
  have sm: "sum_list (map rowPercentage (Tv @ Tc)) = (\<Sum>c \<in> observedChars obs. percentage c obs)"
    unfolding un using fin dj
    by (simp add: Tv_def Tc_def table_sum A_def[symmetric] B_def[symmetric] sum.union_disjoint)
  have emp: "(Tv @ Tc = []) = (observedChars obs = {})"
  proof -
    have "finite (observedChars obs)" unfolding un using fin by simp
    then have "(card (observedChars obs) = 0) = (observedChars obs = {})" by simp
    moreover have "(Tv @ Tc = []) = (length (Tv @ Tc) = 0)" by simp
    ultimately show ?thesis unfolding len by blast
  qed
  show ?thesis
    unfolding calculateConsistencyScore_rows analyzePatternTables_tables meanConsistency_def
      obs_def[symmetric] Tv_def[symmetric] Tc_def[symmetric] Let_def
    by (simp only: emp sm len)
qed

lemma meanConsistency_bounds: "0 \<le> meanConsistency entries \<and> meanConsistency entries \<le> 100"
proof -
  define obs where "obs = observations entries"
  define S where "S = observedChars obs"
  have fin: "finite S" by (simp add: S_def observedChars_def)
  have b: "0 \<le> percentage c obs \<and> percentage c obs \<le> 100" if "c \<in> S" for c
  proof -
    from that have "c \<in> fst ` set obs" by (simp add: S_def observedChars_def)
    then have "targetsOf c obs \<noteq> []" by (simp add: targetsOf_empty)
    then show ?thesis by (rule percentage_bounds)
  qed
  show ?thesis
  proof (cases "S = {}")
    case True
    then show ?thesis
      by (simp add: meanConsistency_def obs_def[symmetric] S_def[symmetric])
  next
    case False
    with fin have pos: "(0::rat) < of_nat (card S)" by (simp add: card_gt_0_iff)
    have lo: "0 \<le> (\<Sum>c\<in>S. percentage c obs)"
      by (rule sum_nonneg) (use b in blast)
    have "(\<Sum>c\<in>S. percentage c obs) \<le> of_nat (card S) * 100"
      by (rule sum_bounded_above) (use b in blast)
    then have hi: "(\<Sum>c\<in>S. percentage c obs) / of_nat (card S) \<le> 100"
      using pos by (simp add: divide_le_eq mult.commute)
    have "0 \<le> (\<Sum>c\<in>S. percentage c obs) / of_nat (card S)"
      using lo pos by simp
    with hi False show ?thesis
      by (simp add: meanConsistency_def obs_def[symmetric] S_def[symmetric] Let_def)
  qed
qed

text \<open>
  Claim C2. For every vocabulary the consistency score is the arithmetic mean, over the
  distinct source vowels and consonants observed, of the count of the most frequent
  constructed character of the source character divided by the number of its
  observations, times 100; it is 0 when no such character was observed. The score lies
  between 0 and 100, and the score of the empty vocabulary is 0. Scores are exact
  rationals here, where the program computes with floating-point numbers.
\<close>

theorem consistency_score_mean:
  "consistencyScore (analyzePhoneticPatterns l) = meanConsistency (vocabulary l) \<and>
   0 \<le> consistencyScore (analyzePhoneticPatterns l) \<and>
   consistencyScore (analyzePhoneticPatterns l) \<le> 100 \<and>
   consistencyScore (analyzePhoneticPatterns (l\<lparr>vocabulary := []\<rparr>)) = 0"
proof -
  have a: "consistencyScore (analyzePhoneticPatterns l) = meanConsistency (vocabulary l)" for l
    by (simp add: analyzePhoneticPatterns_def Let_def score_is_mean)
  have "meanConsistency [] = 0"
    by (simp add: meanConsistency_def observations_def observedChars_def)
  then show ?thesis
    using a meanConsistency_bounds[of "vocabulary l"] by simp
qed

text \<open>
  The score of \<^const>\<open>mixedLanguage\<close>: the letter \<^verbatim>\<open>c\<close> has two constructed
  characters, one observation each (50 percent); \<^verbatim>\<open>a\<close>, \<^verbatim>\<open>o\<close> and \<^verbatim>\<open>t\<close> have one
  each (100 percent). The mean of the four is 87.5.
\<close>

theorem consistency_score_mean_witness:
  "consistencyScore (analyzePhoneticPatterns mixedLanguage) = 175 / 2 \<and>
   meanConsistency (vocabulary mixedLanguage) = 175 / 2"
proof -
  have "consistencyScore (analyzePhoneticPatterns mixedLanguage) = 175 / 2"
    by code_simp
  then show ?thesis
    using consistency_score_mean[of mixedLanguage] by simp
qed

end
